(* ===== verification/JS_Prelude.thy ===== *)
theory JS_Prelude
  imports Main "HOL-Library.AList"
begin

text \<open>
  The fragment of JavaScript that the admin UI (\<^verbatim>\<open>src/admin/public\<close>) computes with.

  \<^item> \<open>jsval\<close>: the values of the language the sources handle. A property list keeps the order of
    insertion; \<open>object_keys\<close> gives the order in which JavaScript enumerates it. Numbers are
    integers: every number the UI computes with (versions, quota sizes, Unix times) is one, and
    \<open>NaN\<close> is the \<open>None\<close> of the operations that can produce it.
  \<^item> \<open>js_error\<close> and \<open>and_then\<close>: thrown exceptions are values, and a statement that follows a
    throwing one is not run.
  \<^item> \<open>prop_of\<close> and \<open>get_prop\<close>: property reads, with the members that every object inherits from
    \<open>Object.prototype\<close>; reading a property of \<open>undefined\<close> or \<open>null\<close> throws.
  \<^item> \<open>put_prop\<close>, \<open>object_assign\<close>, \<open>to_str\<close>, \<open>truthy\<close>: assignment, \<open>Object.assign\<close>, string
    conversion as template literals do it, and the truth value of a condition.
\<close>

section \<open>Collections of rewrite rules\<close>

named_theorems js_simps \<open>evaluation of the JavaScript primitives\<close>
named_theorems im_simps \<open>laws of the immutable tree operations\<close>

section \<open>Exceptions\<close>

datatype js_error =
    TypeError string
  | ImmutableError string
  | PlainError string
  | OutsideModel string
    \<comment> \<open>the code does something here that the model has no value for\<close>

type_synonym 'a result = "js_error + 'a"

fun and_then :: "'a result \<Rightarrow> ('a \<Rightarrow> 'b result) \<Rightarrow> 'b result" where
  "and_then (Inl e) f = Inl e"
| "and_then (Inr x) f = f x"

lemma and_then_eq_Inr [js_simps]:
  "and_then r f = Inr y \<longleftrightarrow> (\<exists>x. r = Inr x \<and> f x = Inr y)"
  by (cases r) auto

lemma and_then_eq_Inl [js_simps]:
  "and_then r f = Inl e \<longleftrightarrow> r = Inl e \<or> (\<exists>x. r = Inr x \<and> f x = Inl e)"
  by (cases r) auto

lemma and_then_assoc: "and_then (and_then r f) g = and_then r (\<lambda>x. and_then (f x) g)"
  by (cases r) auto

lemma and_then_Inr_right [simp]: "and_then r Inr = r"
  by (cases r) auto

section \<open>Values\<close>

datatype jsval =
    JUndef
  | JNull
  | JBool bool
  | JNum int
  | JStr string
  | JArr "jsval list"
  | JObj "(string \<times> jsval) list"
  | JFun string
    \<comment> \<open>a function of the standard library, by its \<open>name\<close>\<close>

type_synonym props = "(string \<times> jsval) list"

fun nullish :: "jsval \<Rightarrow> bool" where
  "nullish JUndef = True"
| "nullish JNull = True"
| "nullish _ = False"

fun truthy :: "jsval \<Rightarrow> bool" where
  "truthy JUndef = False"
| "truthy JNull = False"
| "truthy (JBool b) = b"
| "truthy (JNum n) = (n \<noteq> 0)"
| "truthy (JStr s) = (s \<noteq> [])"
| "truthy (JArr _) = True"
| "truthy (JObj _) = True"
| "truthy (JFun _) = True"

text \<open>The operator \<open>a || b\<close>.\<close>

definition js_or :: "jsval \<Rightarrow> jsval \<Rightarrow> jsval" where
  "js_or a b = (if truthy a then a else b)"

fun is_primitive :: "jsval \<Rightarrow> bool" where
  "is_primitive (JArr _) = False"
| "is_primitive (JObj _) = False"
| "is_primitive (JFun _) = False"
| "is_primitive _ = True"

section \<open>Numbers and strings\<close>

definition digit_char :: "nat \<Rightarrow> char" where
  "digit_char d = ''0123456789'' ! d"

fun show_nat :: "nat \<Rightarrow> string" where
  "show_nat n = (if n < 10 then [digit_char n] else show_nat (n div 10) @ [digit_char (n mod 10)])"

declare show_nat.simps [simp del]

definition show_int :: "int \<Rightarrow> string" where
  "show_int i = (if i < 0 then ''-'' @ show_nat (nat (- i)) else show_nat (nat i))"

definition digit_of :: "char \<Rightarrow> nat option" where
  "digit_of c = (let n = of_char c in if 48 \<le> n \<and> n \<le> 57 then Some (n - 48) else None)"

fun read_digits :: "nat \<Rightarrow> string \<Rightarrow> nat option" where
  "read_digits acc [] = Some acc"
| "read_digits acc (c # cs) =
     (case digit_of c of None \<Rightarrow> None | Some d \<Rightarrow> read_digits (10 * acc + d) cs)"

text \<open>A property name that is an array index: decimal, canonical, below \<open>2\<^sup>3\<^sup>2 - 1\<close>.\<close>

definition array_index :: "string \<Rightarrow> nat option" where
  "array_index s =
     (case s of
        [] \<Rightarrow> None
      | c # cs \<Rightarrow>
          if c = CHR ''0'' \<and> cs \<noteq> [] then None
          else (case read_digits 0 s of
                  None \<Rightarrow> None
                | Some n \<Rightarrow> if n < 4294967295 then Some n else None))"

fun join :: "string \<Rightarrow> string list \<Rightarrow> string" where
  "join sep [] = []"
| "join sep [x] = x"
| "join sep (x # y # xs) = x @ sep @ join sep (y # xs)"

text \<open>String conversion, as a template literal or a computed property name does it.\<close>

fun to_str :: "jsval \<Rightarrow> string" where
  "to_str JUndef = ''undefined''"
| "to_str JNull = ''null''"
| "to_str (JBool b) = (if b then ''true'' else ''false'')"
| "to_str (JNum n) = show_int n"
| "to_str (JStr s) = s"
| "to_str (JArr xs) = join '','' (map (\<lambda>x. if nullish x then [] else to_str x) xs)"
| "to_str (JObj _) = ''[object Object]''"
| "to_str (JFun f) = ''function '' @ f @ ''() { [native code] }''"

section \<open>Objects\<close>

text \<open>The names every plain object inherits from \<open>Object.prototype\<close>, besides \<open>__proto__\<close>.\<close>

definition object_prototype :: "string list" where
  "object_prototype =
     [''constructor'', ''__defineGetter__'', ''__defineSetter__'', ''hasOwnProperty'',
      ''__lookupGetter__'', ''__lookupSetter__'', ''isPrototypeOf'', ''propertyIsEnumerable'',
      ''toString'', ''valueOf'', ''toLocaleString'']"

definition inherited :: "string \<Rightarrow> jsval" where
  "inherited k =
     (if k = ''__proto__'' then JObj []
      else if k = ''constructor'' then JFun ''Object''
      else if k \<in> set object_prototype then JFun k
      else JUndef)"

text \<open>
  \<open>v[k]\<close> for a value that is neither \<open>undefined\<close> nor \<open>null\<close>. Of the members of \<open>Array.prototype\<close>
  and \<open>String.prototype\<close> only \<open>length\<close> and the indices are represented.
\<close>

fun prop_of :: "jsval \<Rightarrow> string \<Rightarrow> jsval" where
  "prop_of (JObj kvs) k = (case map_of kvs k of Some v \<Rightarrow> v | None \<Rightarrow> inherited k)"
| "prop_of (JArr xs) k =
     (if k = ''length'' then JNum (int (length xs))
      else case array_index k of
             Some i \<Rightarrow> if i < length xs then xs ! i else JUndef
           | None \<Rightarrow> inherited k)"
| "prop_of (JStr s) k =
     (if k = ''length'' then JNum (int (length s))
      else case array_index k of
             Some i \<Rightarrow> if i < length s then JStr [s ! i] else JUndef
           | None \<Rightarrow> inherited k)"
| "prop_of _ k = inherited k"

definition get_prop :: "jsval \<Rightarrow> string \<Rightarrow> jsval result" where
  "get_prop v k =
     (if nullish v then Inl (TypeError (''Cannot read property '' @ k)) else Inr (prop_of v k))"

text \<open>
  \<open>o[k] = v\<close>: overwrite in place or append. Assigning to \<open>__proto__\<close> makes no own property.
\<close>

definition put_prop :: "props \<Rightarrow> string \<Rightarrow> jsval \<Rightarrow> props" where
  "put_prop kvs k v = (if k = ''__proto__'' then kvs else AList.update k v kvs)"

text \<open>The own enumerable properties that \<open>Object.assign\<close> and object spread copy.\<close>

fun own_props :: "jsval \<Rightarrow> props" where
  "own_props (JObj kvs) = kvs"
| "own_props (JArr xs) = map (\<lambda>i. (show_nat i, xs ! i)) [0..<length xs]"
| "own_props (JStr s) = map (\<lambda>i. (show_nat i, JStr [s ! i])) [0..<length s]"
| "own_props _ = []"

definition object_assign :: "props \<Rightarrow> jsval \<Rightarrow> props" where
  "object_assign target src = fold (\<lambda>(k, v) acc. put_prop acc k v) (own_props src) target"

text \<open>\<open>Object.keys\<close>: the array indices in ascending order, then the other names by insertion.\<close>

definition object_keys :: "(string \<times> 'a) list \<Rightarrow> string list" where
  "object_keys kvs =
     (let ks = map fst kvs
      in sort_key (\<lambda>k. case array_index k of Some n \<Rightarrow> n | None \<Rightarrow> 0)
           (filter (\<lambda>k. array_index k \<noteq> None) ks)
         @ filter (\<lambda>k. array_index k = None) ks)"

section \<open>Shared lemmas\<close>

text \<open>Decimal text determines the number.\<close>

lemma digit_of_digit_char: "d < 10 \<Longrightarrow> digit_of (digit_char d) = Some d"
proof -
  assume "d < 10"
  then have "d \<in> {0, 1, 2, 3, 4, 5, 6, 7, 8, 9}" by auto
  then show ?thesis by (auto simp: digit_char_def digit_of_def)
qed

lemma read_digits_append:
  "read_digits acc (s @ t) = (case read_digits acc s of None \<Rightarrow> None | Some n \<Rightarrow> read_digits n t)"
  by (induction s arbitrary: acc) (auto split: option.split)

lemma read_digits_show_nat: "read_digits 0 (show_nat n) = Some n"
proof (induction n rule: show_nat.induct)
  case (1 n)
  then show ?case
    by (subst show_nat.simps) (simp add: read_digits_append digit_of_digit_char)
qed

lemma show_nat_inj [simp]: "show_nat m = show_nat n \<longleftrightarrow> m = n"
  by (metis option.inject read_digits_show_nat)

lemma show_nat_less: "n < 10 \<Longrightarrow> show_nat n = [digit_char n]"
  by (simp add: show_nat.simps [of n])

lemma show_nat_step: "10 \<le> n \<Longrightarrow> show_nat n = show_nat (n div 10) @ [digit_char (n mod 10)]"
  by (simp add: show_nat.simps [of n])

lemma show_nat_first: "\<exists>d cs. show_nat n = digit_char d # cs \<and> d < 10 \<and> (0 < n \<longrightarrow> 0 < d)"
proof (induction n rule: show_nat.induct)
  case (1 n)
  show ?case
  proof (cases "n < 10")
    case True
    then show ?thesis by (simp add: show_nat_less) blast
  next
    case False
    then obtain d cs where "show_nat (n div 10) = digit_char d # cs" "d < 10" "0 < d"
      using 1 by fastforce
    then show ?thesis using False by (auto simp: show_nat_step)
  qed
qed

lemma show_nat_not_first:
  assumes "c \<notin> digit_char ` {0..<10}" shows "show_nat n \<noteq> c # cs"
proof
  assume "show_nat n = c # cs"
  moreover obtain d ds where "show_nat n = digit_char d # ds" "d < 10" using show_nat_first by blast
  ultimately show False using assms by auto
qed

lemma show_int_inj [simp]: "show_int i = show_int j \<longleftrightarrow> i = j"
proof -
  have "digit_of (CHR ''-'') = None" by (simp add: digit_of_def)
  then have "CHR ''-'' \<notin> digit_char ` {0..<10}" using digit_of_digit_char by fastforce
  note minus = show_nat_not_first [OF this]
  show ?thesis
    by (cases "i < 0"; cases "j < 0") (auto simp: show_int_def minus minus [THEN not_sym])
qed

lemma truthy_not_nullish: "truthy v \<Longrightarrow> \<not> nullish v"
  by (cases v) auto

lemma js_or_truthy [simp]: "truthy a \<Longrightarrow> js_or a b = a"
  by (simp add: js_or_def)

lemma js_or_falsy [simp]: "\<not> truthy a \<Longrightarrow> js_or a b = b"
  by (simp add: js_or_def)

lemma get_prop_obj [js_simps]:
  "get_prop (JObj kvs) k = Inr (case map_of kvs k of Some v \<Rightarrow> v | None \<Rightarrow> inherited k)"
  by (simp add: get_prop_def)

lemma get_prop_nullish [js_simps]:
  "nullish v \<Longrightarrow> get_prop v k = Inl (TypeError (''Cannot read property '' @ k))"
  by (simp add: get_prop_def)

lemma map_of_put_prop [js_simps]:
  "map_of (put_prop kvs k v) k' =
     (if k' = k \<and> k \<noteq> ''__proto__'' then Some v else map_of kvs k')"
  by (auto simp: put_prop_def update_conv')

lemma map_of_filter_key:
  "map_of (filter (\<lambda>kv. P (fst kv)) kvs) k = (if P k then map_of kvs k else None)"
  by (induction kvs) auto

lemma keys_put_prop:
  "set (map fst (put_prop kvs k v)) =
     (if k = ''__proto__'' then set (map fst kvs) else insert k (set (map fst kvs)))"
  unfolding put_prop_def by (induction kvs) (auto split: if_splits)

lemma distinct_put_prop:
  "distinct (map fst kvs) \<Longrightarrow> distinct (map fst (put_prop kvs k v))"
  by (simp add: put_prop_def distinct_update)

lemma set_put_prop:
  "(a, b) \<in> set (put_prop kvs k v) \<Longrightarrow> (a, b) \<in> set kvs \<or> (a = k \<and> b = v)"
  unfolding put_prop_def by (induction kvs) (auto split: if_splits)

lemma put_prop_new:
  "k \<notin> set (map fst kvs) \<Longrightarrow> k \<noteq> ''__proto__'' \<Longrightarrow> put_prop kvs k v = kvs @ [(k, v)]"
  unfolding put_prop_def by (induction kvs) auto

lemma set_object_keys: "set (object_keys kvs) = set (map fst kvs)"
  by (auto simp: object_keys_def Let_def)

lemma distinct_object_keys:
  assumes "distinct (map fst kvs)"
  shows "distinct (object_keys kvs)"
proof -
  let ?I = "filter (\<lambda>k. array_index k \<noteq> None) (map fst kvs)"
  have "distinct (sort_key (\<lambda>k. case array_index k of Some n \<Rightarrow> n | None \<Rightarrow> 0) ?I)"
    using assms by simp
  then show ?thesis
    using assms by (auto simp: object_keys_def Let_def)
qed

lemma map_of_object_assign:
  "distinct (map fst kvs) \<Longrightarrow> ''__proto__'' \<notin> set (map fst kvs) \<Longrightarrow>
   map_of (object_assign target (JObj kvs)) k =
     (case map_of kvs k of Some v \<Rightarrow> Some v | None \<Rightarrow> map_of target k)"
  unfolding object_assign_def
proof (induction kvs arbitrary: target)
  case (Cons kv kvs)
  obtain a b where kv: "kv = (a, b)" by (cases kv)
  have "map_of kvs a = None" using Cons.prems kv by (simp add: map_of_eq_None_iff)
  then show ?case using Cons kv by (auto simp: js_simps split: option.split)
qed simp

lemma object_assign_new:
  "distinct (map fst (target @ kvs)) \<Longrightarrow> ''__proto__'' \<notin> set (map fst kvs) \<Longrightarrow>
   object_assign target (JObj kvs) = target @ kvs"
  unfolding object_assign_def
proof (induction kvs arbitrary: target)
  case (Cons kv kvs)
  then show ?case by (cases kv) (auto simp: put_prop_new)
qed simp

end
