(* ===== verification/JSON_Text.thy ===== *)
theory JSON_Text
  imports JS_Prelude
begin

text \<open>
  \<open>JSON.stringify\<close>, which \<^verbatim>\<open>src/admin/public/src/actions/configs.jsx\<close> uses twice: without a gap
  for the body of the request that commits a configuration, and with a gap of four spaces for
  the text the user confirms. Members come in the order of \<open>Object.keys\<close>; members whose value has
  no JSON text (\<open>undefined\<close>, functions) are left out, and in an array they become \<open>null\<close>.
\<close>

definition hex_digit :: "nat \<Rightarrow> char" where
  "hex_digit d = ''0123456789abcdef'' ! d"

definition json_escape :: "char \<Rightarrow> string" where
  "json_escape c =
     (let n = of_char c :: nat in
      if n = 34 then [CHR 0x5C, CHR 0x22]
      else if n = 92 then [CHR 0x5C, CHR 0x5C]
      else if n = 8 then [CHR 0x5C, CHR ''b'']
      else if n = 12 then [CHR 0x5C, CHR ''f'']
      else if n = 10 then [CHR 0x5C, CHR ''n'']
      else if n = 13 then [CHR 0x5C, CHR ''r'']
      else if n = 9 then [CHR 0x5C, CHR ''t'']
      else if n < 32 then [CHR 0x5C] @ ''u00'' @ [hex_digit (n div 16), hex_digit (n mod 16)]
      else [c])"

definition json_quote :: "string \<Rightarrow> string" where
  "json_quote s = [CHR 0x22] @ concat (map json_escape s) @ [CHR 0x22]"

text \<open>The members of an object, in the order in which they are enumerated.\<close>

definition in_key_order :: "(string \<times> 'a) list \<Rightarrow> (string \<times> 'a) list" where
  "in_key_order ps = List.map_filter (\<lambda>k. map_option (Pair k) (map_of ps k)) (object_keys ps)"

definition json_block :: "string \<Rightarrow> string \<Rightarrow> string \<Rightarrow> string \<Rightarrow> string list \<Rightarrow> string" where
  "json_block gap ind op cl parts =
     (if parts = [] then op @ cl
      else if gap = [] then op @ join '','' parts @ cl
      else op @ [CHR 0x0A] @ ind @ gap
           @ join ('','' @ [CHR 0x0A] @ ind @ gap) parts
           @ [CHR 0x0A] @ ind @ cl)"

definition json_member :: "string \<Rightarrow> string \<times> string \<Rightarrow> string" where
  "json_member gap = (\<lambda>(k, t). json_quote k @ (if gap = [] then '':'' else '': '') @ t)"

fun json_text :: "string \<Rightarrow> string \<Rightarrow> jsval \<Rightarrow> string option"
  and json_props :: "string \<Rightarrow> string \<Rightarrow> props \<Rightarrow> (string \<times> string) list"
  and json_elems :: "string \<Rightarrow> string \<Rightarrow> jsval list \<Rightarrow> string list"
where
  "json_text gap ind JUndef = None"
| "json_text gap ind JNull = Some ''null''"
| "json_text gap ind (JBool b) = Some (if b then ''true'' else ''false'')"
| "json_text gap ind (JNum n) = Some (show_int n)"
| "json_text gap ind (JStr s) = Some (json_quote s)"
| "json_text gap ind (JFun f) = None"
| "json_text gap ind (JArr xs) =
     Some (json_block gap ind ''['' '']'' (json_elems gap (ind @ gap) xs))"
| "json_text gap ind (JObj kvs) =
     Some (json_block gap ind ''{'' ''}''
       (map (json_member gap) (in_key_order (json_props gap (ind @ gap) kvs))))"
| "json_props gap ind [] = []"
| "json_props gap ind ((k, v) # kvs) =
     (case json_text gap ind v of
        None \<Rightarrow> json_props gap ind kvs
      | Some t \<Rightarrow> (k, t) # json_props gap ind kvs)"
| "json_elems gap ind [] = []"
| "json_elems gap ind (x # xs) =
     (case json_text gap ind x of None \<Rightarrow> ''null'' | Some t \<Rightarrow> t) # json_elems gap ind xs"

definition json_stringify :: "jsval \<Rightarrow> string option" where
  "json_stringify v = json_text [] [] v"

definition json_stringify4 :: "jsval \<Rightarrow> string option" where
  "json_stringify4 v = json_text ''    '' [] v"

end
