(* ===== verification/Actions.thy ===== *)
theory Actions
  imports JSON_Text
begin

text \<open>
  The actions of the store and the functions that create them
  (\<^verbatim>\<open>src/admin/public/src/actions\<close>).

  An action is a value of \<open>action\<close>, one constructor per \<open>type\<close> constant, with the fields the
  creators give it. Actions that come from the API middleware have an \<open>error\<close> flag and a
  \<open>payload\<close>. \<open>OTHER\<close> stands for the types that the application does not name (Redux's own).
  The \<open>bucket\<close> field is a JavaScript value because two reducers overwrite it.

  A creator returns a thunk; \<open>thunk\<close> says what each thunk does when it is run with \<open>dispatch\<close>
  (the store gives it that meaning), and \<open>rsaa\<close> is the description of an API call that the
  middleware carries out.
\<close>

section \<open>Actions\<close>

record rsaa =
  endpoint :: string
  method_name :: string
  headers :: "(string \<times> string) list"
  body_text :: "string option"
  credentials :: string
  types :: "string \<times> string \<times> string"

datatype action =
    ADD_NAMESPACE string
  | UPDATE_NAMESPACE string string jsval
  | REMOVE_NAMESPACE string
  | ADD_BUCKET string jsval
  | UPDATE_BUCKET string jsval string jsval
  | REMOVE_BUCKET string jsval
  | SELECT_NAMESPACE "string option" bool
  | UNDO
  | REDO
  | LOAD_CONFIG jsval
  | CONFIGS_REQUEST bool jsval
  | CONFIGS_FETCH_SUCCESS bool jsval
  | CONFIGS_COMMIT_SUCCESS bool jsval
  | CONFIGS_FAILURE bool jsval
  | STATS_TOGGLE
  | STATS_REQUEST bool jsval
  | STATS_FETCH_SUCCESS bool jsval
  | STATS_FAILURE bool jsval
  | CAPABILITIES_REQUEST jsval
  | CAPABILITIES_FETCH_SUCCESS jsval
  | CONFIRM dispatchable string "string option"
  | CLEAR_CONFIRM
  | OTHER string
and dispatchable =
    Plain action
  | Call_Api rsaa

fun action_type :: "action \<Rightarrow> string" where
  "action_type (ADD_NAMESPACE _) = ''ADD_NAMESPACE''"
| "action_type (UPDATE_NAMESPACE _ _ _) = ''UPDATE_NAMESPACE''"
| "action_type (REMOVE_NAMESPACE _) = ''REMOVE_NAMESPACE''"
| "action_type (ADD_BUCKET _ _) = ''ADD_BUCKET''"
| "action_type (UPDATE_BUCKET _ _ _ _) = ''UPDATE_BUCKET''"
| "action_type (REMOVE_BUCKET _ _) = ''REMOVE_BUCKET''"
| "action_type (SELECT_NAMESPACE _ _) = ''SELECT_NAMESPACE''"
| "action_type UNDO = ''UNDO''"
| "action_type REDO = ''REDO''"
| "action_type (LOAD_CONFIG _) = ''LOAD_CONFIG''"
| "action_type (CONFIGS_REQUEST _ _) = ''CONFIGS_REQUEST''"
| "action_type (CONFIGS_FETCH_SUCCESS _ _) = ''CONFIGS_FETCH_SUCCESS''"
| "action_type (CONFIGS_COMMIT_SUCCESS _ _) = ''CONFIGS_COMMIT_SUCCESS''"
| "action_type (CONFIGS_FAILURE _ _) = ''CONFIGS_FAILURE''"
| "action_type STATS_TOGGLE = ''STATS_TOGGLE''"
| "action_type (STATS_REQUEST _ _) = ''STATS_REQUEST''"
| "action_type (STATS_FETCH_SUCCESS _ _) = ''STATS_FETCH_SUCCESS''"
| "action_type (STATS_FAILURE _ _) = ''STATS_FAILURE''"
| "action_type (CAPABILITIES_REQUEST _) = ''CAPABILITIES_REQUEST''"
| "action_type (CAPABILITIES_FETCH_SUCCESS _) = ''CAPABILITIES_FETCH_SUCCESS''"
| "action_type (CONFIRM _ _ _) = ''CONFIRM''"
| "action_type CLEAR_CONFIRM = ''CLEAR_CONFIRM''"
| "action_type (OTHER t) = t"

text \<open>\<open>Object.keys(MutableActions)\<close>: the constants and the creators that \<open>mutable.jsx\<close> exports.\<close>

definition mutable_exports :: "string list" where
  "mutable_exports =
     [''ADD_NAMESPACE'', ''UPDATE_NAMESPACE'', ''REMOVE_NAMESPACE'',
      ''ADD_BUCKET'', ''UPDATE_BUCKET'', ''REMOVE_BUCKET'',
      ''addNamespace'', ''updateNamespace'', ''removeNamespace'',
      ''addBucket'', ''updateBucket'', ''removeBucket'']"

text \<open>An action whose type is not one of the application's goes by \<open>OTHER\<close>.\<close>

definition app_types :: "string list" where
  "app_types =
     [''ADD_NAMESPACE'', ''UPDATE_NAMESPACE'', ''REMOVE_NAMESPACE'', ''ADD_BUCKET'',
      ''UPDATE_BUCKET'', ''REMOVE_BUCKET'', ''SELECT_NAMESPACE'', ''UNDO'', ''REDO'',
      ''LOAD_CONFIG'', ''CONFIGS_REQUEST'', ''CONFIGS_FETCH_SUCCESS'', ''CONFIGS_COMMIT_SUCCESS'',
      ''CONFIGS_FAILURE'', ''STATS_TOGGLE'', ''STATS_REQUEST'', ''STATS_FETCH_SUCCESS'',
      ''STATS_FAILURE'', ''CAPABILITIES_REQUEST'', ''CAPABILITIES_FETCH_SUCCESS'', ''CONFIRM'',
      ''CLEAR_CONFIRM'']"

section \<open>Thunks\<close>

datatype thunk =
    Dispatches action
    \<comment> \<open>\<open>dispatch => dispatch(a)\<close>\<close>
  | Runs action
    \<comment> \<open>\<open>dispatch => { dispatch(a) }\<close>, which returns nothing\<close>
  | Dispatches_api rsaa
  | Toggle_stats
  | Fetch_configs
  | Fetch_capabilities jsval

section \<open>Action creators\<close>

text \<open>\<^verbatim>\<open>actions/confirmation.jsx\<close>\<close>

definition confirm_thunk :: "dispatchable \<Rightarrow> string \<Rightarrow> string option \<Rightarrow> thunk" where
  "confirm_thunk a header body = Dispatches (CONFIRM a header body)"

definition clearConfirm :: thunk where
  "clearConfirm = Dispatches CLEAR_CONFIRM"

text \<open>\<^verbatim>\<open>actions/mutable.jsx\<close>\<close>

definition addNamespace_thunk :: "string \<Rightarrow> thunk" where
  "addNamespace_thunk name = Runs (ADD_NAMESPACE name)"

definition updateNamespace_thunk :: "string \<Rightarrow> string \<Rightarrow> jsval \<Rightarrow> thunk" where
  "updateNamespace_thunk namespace key value = Runs (UPDATE_NAMESPACE namespace key value)"

definition removeNamespace_thunk :: "string \<Rightarrow> thunk" where
  "removeNamespace_thunk namespace =
     confirm_thunk (Plain (REMOVE_NAMESPACE namespace))
       (''You are about to remove the '' @ namespace @ '' namespace.'') None"

definition addBucket_thunk :: "string \<Rightarrow> string \<Rightarrow> thunk" where
  "addBucket_thunk namespace name = Runs (ADD_BUCKET namespace (JStr name))"

definition updateBucket_thunk :: "string \<Rightarrow> string \<Rightarrow> string \<Rightarrow> jsval \<Rightarrow> thunk" where
  "updateBucket_thunk namespace bucket key value =
     Runs (UPDATE_BUCKET namespace (JStr bucket) key value)"

definition removeBucket_thunk :: "string \<Rightarrow> string \<Rightarrow> thunk" where
  "removeBucket_thunk namespace bucket =
     confirm_thunk (Plain (REMOVE_BUCKET namespace (JStr bucket)))
       (''You are about to remove the '' @ namespace @ ''.'' @ bucket @ '' bucket.'') None"

text \<open>\<^verbatim>\<open>actions/namespaces.jsx\<close> and \<^verbatim>\<open>actions/history.jsx\<close>\<close>

definition selectNamespace_thunk :: "string option \<Rightarrow> bool \<Rightarrow> thunk" where
  "selectNamespace_thunk namespace canMakeChanges =
     Dispatches (SELECT_NAMESPACE namespace canMakeChanges)"

definition undo_thunk :: thunk where
  "undo_thunk = Dispatches UNDO"

definition redo_thunk :: thunk where
  "redo_thunk = Dispatches REDO"

text \<open>\<^verbatim>\<open>actions/configs.jsx\<close>\<close>

definition loadConfig_thunk :: "jsval \<Rightarrow> thunk" where
  "loadConfig_thunk config = Dispatches (LOAD_CONFIG config)"

definition fetchConfigs_thunk :: thunk where
  "fetchConfigs_thunk = Fetch_configs"

definition commitConfig_thunk :: "jsval \<Rightarrow> jsval \<Rightarrow> thunk" where
  "commitConfig_thunk namespaces version =
     confirm_thunk
       (Call_Api \<lparr> endpoint = ''/api'', method_name = ''POST'',
          headers = [(''Content-Type'', ''application/json''), (''Version'', to_str version)],
          body_text = json_stringify (JObj [(''namespaces'', namespaces)]),
          credentials = ''same-origin'',
          types = (''CONFIGS_REQUEST'', ''CONFIGS_COMMIT_SUCCESS'', ''CONFIGS_FAILURE'') \<rparr>)
       ''You are about to submit the following configuration.''
       (json_stringify4 namespaces)"

text \<open>\<^verbatim>\<open>actions/stats.jsx\<close>\<close>

definition fetchStatsAction :: "string \<Rightarrow> string option \<Rightarrow> rsaa" where
  "fetchStatsAction namespace bucket =
     (let url = ''/api/stats/'' @ namespace;
          url' = (case bucket of
                    Some b \<Rightarrow> if b \<noteq> [] then url @ ''/'' @ b else url
                  | None \<Rightarrow> url)
      in \<lparr> endpoint = url', method_name = ''GET'', headers = [], body_text = None,
           credentials = ''same-origin'',
           types = (''STATS_REQUEST'', ''STATS_FETCH_SUCCESS'', ''STATS_FAILURE'') \<rparr>)"

definition fetchStats_thunk :: "string \<Rightarrow> string option \<Rightarrow> thunk" where
  "fetchStats_thunk namespace bucket = Dispatches_api (fetchStatsAction namespace bucket)"

definition toggleStats_thunk :: thunk where
  "toggleStats_thunk = Toggle_stats"

text \<open>\<^verbatim>\<open>actions/capabilities.jsx\<close>\<close>

definition fetchCapabilities_thunk :: "jsval \<Rightarrow> thunk" where
  "fetchCapabilities_thunk configs = Fetch_capabilities configs"

section \<open>Which actions change the configuration\<close>

definition is_mutable :: "action \<Rightarrow> bool" where
  "is_mutable a = (action_type a \<in> set mutable_exports)"

text \<open>Actions as the application makes them: \<open>OTHER\<close> never reuses an exported name.\<close>

fun app_action :: "action \<Rightarrow> bool" where
  "app_action (OTHER t) = (t \<notin> set app_types \<and> t \<notin> set mutable_exports)"
| "app_action _ = True"

fun edit_action :: "action \<Rightarrow> bool" where
  "edit_action (ADD_NAMESPACE _) = True"
| "edit_action (UPDATE_NAMESPACE _ _ _) = True"
| "edit_action (REMOVE_NAMESPACE _) = True"
| "edit_action (ADD_BUCKET _ _) = True"
| "edit_action (UPDATE_BUCKET _ _ _ _) = True"
| "edit_action (REMOVE_BUCKET _ _) = True"
| "edit_action _ = False"

lemma is_mutable_iff: "app_action a \<Longrightarrow> is_mutable a \<longleftrightarrow> edit_action a"
  by (cases a) (auto simp: is_mutable_def mutable_exports_def)

lemma edit_action_mutable: "edit_action a \<Longrightarrow> is_mutable a"
  by (cases a) (auto simp: is_mutable_def mutable_exports_def)

end
