(* ===== verification/Input_Field.thy ===== *)
theory Input_Field
  imports Actions
begin

text \<open>
  The input field of the forms (\<^verbatim>\<open>src/admin/public/src/components/Field.jsx\<close>): its local state,
  what it does when the user types and when new properties arrive, and \<open>parseInt\<close>.

  \<open>handleChange(keyName)\<close>, which the constructor keeps, is a closure that calls one of two action
  creators; \<open>field_target\<close> is that closure as data and \<open>field_call\<close> its call.
\<close>

section \<open>parseInt\<close>

text \<open>The white space and line terminators of the ASCII range and the no-break space.\<close>

definition js_space :: "char \<Rightarrow> bool" where
  "js_space c \<longleftrightarrow> (of_char c :: nat) \<in> {9, 10, 11, 12, 13, 32, 160}"

definition digit_value :: "char \<Rightarrow> nat option" where
  "digit_value c =
     (let n = of_char c in
      if 48 \<le> n \<and> n \<le> 57 then Some (n - 48)
      else if 97 \<le> n \<and> n \<le> 122 then Some (n - 87)
      else if 65 \<le> n \<and> n \<le> 90 then Some (n - 55)
      else None)"

text \<open>The longest prefix of digits of a radix.\<close>

fun digits_prefix :: "nat \<Rightarrow> string \<Rightarrow> nat list" where
  "digits_prefix radix [] = []"
| "digits_prefix radix (c # cs) =
     (case digit_value c of
        Some d \<Rightarrow> if d < radix then d # digits_prefix radix cs else []
      | None \<Rightarrow> [])"

definition digits_number :: "nat \<Rightarrow> nat list \<Rightarrow> nat" where
  "digits_number radix ds = fold (\<lambda>d acc. acc * radix + d) ds 0"

fun strip_sign :: "string \<Rightarrow> bool \<times> string" where
  "strip_sign (c # cs) =
     (if c = CHR ''-'' then (True, cs) else if c = CHR ''+'' then (False, cs) else (False, c # cs))"
| "strip_sign [] = (False, [])"

fun strip_hex :: "string \<Rightarrow> nat \<times> string" where
  "strip_hex (z # x # cs) =
     (if z = CHR ''0'' \<and> (x = CHR ''x'' \<or> x = CHR ''X'') then (16, cs) else (10, z # x # cs))"
| "strip_hex cs = (10, cs)"

text \<open>
  \<open>parseInt(s)\<close>; \<open>None\<close> is \<open>NaN\<close>. The result is the exact integer: a number that JavaScript would
  round is beyond the bounds of \<open>validInteger\<close> before and after rounding.
\<close>

definition parseInt :: "string \<Rightarrow> int option" where
  "parseInt s =
     (let (neg, s1) = strip_sign (dropWhile js_space s);
          (radix, s2) = strip_hex s1;
          ds = digits_prefix radix s2
      in if ds = [] then None
         else Some (if neg then - int (digits_number radix ds) else int (digits_number radix ds)))"

definition MAX_SAFE_INTEGER :: int where
  "MAX_SAFE_INTEGER = 9007199254740991"

definition MIN_SAFE_INTEGER :: int where
  "MIN_SAFE_INTEGER = - 9007199254740991"

section \<open>The component\<close>

datatype field_target =
    Namespace_field string string
    \<comment> \<open>\<open>value => updateNamespace(namespace.name, keyName, value)\<close>\<close>
  | Bucket_field string string string
    \<comment> \<open>\<open>value => updateBucket(namespace.name, bucket.name, keyName, value)\<close>\<close>

fun field_call :: "field_target \<Rightarrow> jsval \<Rightarrow> thunk" where
  "field_call (Namespace_field n k) v = updateNamespace_thunk n k v"
| "field_call (Bucket_field n b k) v = updateBucket_thunk n b k v"

record field_state =
  f_id :: string
  f_handleChange :: field_target
  f_value :: jsval

definition field_constructor :: "string \<Rightarrow> string \<Rightarrow> field_target \<Rightarrow> jsval \<Rightarrow> field_state" where
  "field_constructor parent keyName target value =
     \<lparr> f_id = parent @ ''_'' @ keyName, f_handleChange = target,
       f_value = js_or value (JStr []) \<rparr>"

definition field_receiveProps :: "field_state \<Rightarrow> jsval \<Rightarrow> field_state" where
  "field_receiveProps st next_value = st\<lparr> f_value := js_or next_value (JStr []) \<rparr>"

definition validInteger :: "int option \<Rightarrow> bool" where
  "validInteger i =
     (case i of None \<Rightarrow> False | Some n \<Rightarrow> n > MIN_SAFE_INTEGER \<and> n < MAX_SAFE_INTEGER)"

text \<open>The new local state and the thunk that is dispatched, if any.\<close>

definition field_handleChange :: "field_state \<Rightarrow> string \<Rightarrow> field_state \<times> thunk option" where
  "field_handleChange st value =
     (let intValue = parseInt value;
          st' = st\<lparr> f_value := JStr value \<rparr>
      in if value = [] then (st', Some (field_call (f_handleChange st) JNull))
         else (case intValue of
                 Some n \<Rightarrow> if validInteger intValue
                           then (st', Some (field_call (f_handleChange st) (JNum n)))
                           else (st', None)
               | None \<Rightarrow> (st', None)))"

section \<open>Reading back what is shown\<close>

definition digit :: "char \<Rightarrow> bool" where
  "digit c \<longleftrightarrow> (\<exists>d < 10. c = digit_char d)"

lemma digit_char_cases:
  assumes "d < 10"
  shows "digit_value (digit_char d) = Some d" "\<not> js_space (digit_char d)"
    "digit_char d \<noteq> CHR ''-''" "digit_char d \<noteq> CHR ''+''"
    "digit_char d \<noteq> CHR ''x''" "digit_char d \<noteq> CHR ''X''"
proof -
  have "d \<in> {0, 1, 2, 3, 4, 5, 6, 7, 8, 9}" using assms by auto
  then show "digit_value (digit_char d) = Some d" "\<not> js_space (digit_char d)"
    "digit_char d \<noteq> CHR ''-''" "digit_char d \<noteq> CHR ''+''"
    "digit_char d \<noteq> CHR ''x''" "digit_char d \<noteq> CHR ''X''"
    by (auto simp: digit_char_def digit_value_def js_space_def)
qed

lemma digits_prefix_digits:
  "list_all digit s \<Longrightarrow> digits_prefix 10 (s @ [digit_char d]) = digits_prefix 10 s @ digits_prefix 10 [digit_char d]"
  by (induction s) (auto simp: digit_def digit_char_cases)

lemma show_nat_digits: "list_all digit (show_nat n) \<and> show_nat n \<noteq> []"
proof (induction n rule: show_nat.induct)
  case (1 n)
  have "digit (digit_char d)" if "d < 10" for d using that by (auto simp: digit_def)
  then have "digit (digit_char (n mod 10))" "n < 10 \<Longrightarrow> digit (digit_char n)" by simp_all
  then show ?case using 1 by (subst (1 2) show_nat.simps) auto
qed

lemma digits_show_nat: "digits_number 10 (digits_prefix 10 (show_nat n)) = n"
proof (induction n rule: show_nat.induct)
  case (1 n)
  show ?case
  proof (cases "n < 10")
    case True
    then show ?thesis
      by (subst show_nat.simps) (simp add: digit_char_cases digits_number_def)
  next
    case False
    then have "digits_number 10 (digits_prefix 10 (show_nat (n div 10))) = n div 10"
      using 1 by simp
    moreover have "digits_prefix 10 (show_nat n) =
        digits_prefix 10 (show_nat (n div 10)) @ [n mod 10]"
      using False show_nat_digits digits_prefix_digits
      by (subst show_nat.simps) (simp add: digit_char_cases)
    ultimately show ?thesis by (simp add: digits_number_def)
  qed
qed

lemma strip_digits:
  assumes "list_all digit s"
  shows "strip_sign (dropWhile js_space s) = (False, s)" "strip_hex s = (10, s)"
proof -
  show "strip_sign (dropWhile js_space s) = (False, s)"
    using assms by (cases s) (auto simp: digit_def digit_char_cases)
  show "strip_hex s = (10, s)"
    using assms by (cases s rule: strip_hex.cases) (auto simp: digit_def digit_char_cases)
qed

lemma parseInt_show_nat: "parseInt (show_nat n) = Some (int n)"
proof -
  have "digits_prefix 10 (show_nat n) \<noteq> []"
    using show_nat_digits [of n]
    by (cases "show_nat n") (auto simp: digit_def digit_char_cases)
  then show ?thesis
    using show_nat_digits [of n] strip_digits [of "show_nat n"] digits_show_nat [of n]
    by (simp add: parseInt_def Let_def)
qed

lemma parseInt_show_int: "parseInt (show_int i) = Some i"
proof (cases "i < 0")
  case True
  let ?n = "nat (- i)"
  have "digits_prefix 10 (show_nat ?n) \<noteq> []"
    using show_nat_digits [of ?n]
    by (cases "show_nat ?n") (auto simp: digit_def digit_char_cases)
  moreover have "\<not> js_space (CHR ''-'')" by (simp add: js_space_def)
  ultimately show ?thesis
    using True show_nat_digits [of ?n] strip_digits [of "show_nat ?n"] digits_show_nat [of ?n]
    by (simp add: parseInt_def show_int_def)
next
  case False
  then show ?thesis using parseInt_show_nat [of "nat i"] by (simp add: show_int_def)
qed

section \<open>Properties\<close>

text \<open>
  C14: What a field sends is either nothing, or null for an emptied field, or an integer strictly
  between the two safe limits; and typing the decimal text of any such integer sends exactly that
  integer. The text typed is shown in every case.
\<close>

theorem field_sends_safe_integers:
  "(case snd (field_handleChange st value) of
      None \<Rightarrow> value \<noteq> []
    | Some t \<Rightarrow> (value = [] \<and> t = field_call (f_handleChange st) JNull) \<or>
        (\<exists>n. t = field_call (f_handleChange st) (JNum n) \<and> parseInt value = Some n \<and>
             - 9007199254740991 < n \<and> n < 9007199254740991)) \<and>
   f_value (fst (field_handleChange st value)) = JStr value \<and>
   (\<bar>n\<bar> < 9007199254740991 \<longrightarrow>
    snd (field_handleChange st (show_int n)) = Some (field_call (f_handleChange st) (JNum n)))"
proof -
  have "show_int n \<noteq> []" using show_nat_digits by (simp add: show_int_def)
  then show ?thesis
    by (auto simp: field_handleChange_def Let_def validInteger_def MIN_SAFE_INTEGER_def
        MAX_SAFE_INTEGER_def parseInt_show_int split: option.split)
qed

theorem field_sends_safe_integers_witness:
  "snd (field_handleChange \<lparr> f_id = ''b_size'', f_handleChange = Bucket_field ''ns'' ''b'' ''size'',
       f_value = JStr [] \<rparr> (show_int 250)) =
   Some (field_call (Bucket_field ''ns'' ''b'' ''size'') (JNum 250))"
  using field_sends_safe_integers
    [where n = 250 and
      st = "\<lparr> f_id = ''b_size'', f_handleChange = Bucket_field ''ns'' ''b'' ''size'', f_value = JStr [] \<rparr>"]
  by simp



end
