(* ===== verification/Dates.thy ===== *)
theory Dates
  imports JS_Prelude
begin

text \<open>
  \<open>formatDate\<close> and \<open>padZero\<close> (\<^verbatim>\<open>src/admin/public/src/components/FormattedDate.js\<close>), with the
  calendar arithmetic of JavaScript's \<open>Date\<close> that they use: the day number, its year, month and
  day of the month in the proleptic Gregorian calendar, and the hour and minute, all in UTC.
\<close>

section \<open>The calendar of \<open>Date\<close>\<close>

text \<open>The number of the first day of a year, with 1970 as the origin.\<close>

definition day_from_year :: "int \<Rightarrow> int" where
  "day_from_year y =
     365 * (y - 1970) + (y - 1969) div 4 - (y - 1901) div 100 + (y - 1601) div 400"

definition leap_year :: "int \<Rightarrow> bool" where
  "leap_year y \<longleftrightarrow> 4 dvd y \<and> (\<not> 100 dvd y \<or> 400 dvd y)"

lemma div_step:
  fixes k x :: int
  assumes "0 < k"
  shows "x div k = (x - 1) div k + (if k dvd x then 1 else 0)"
proof (cases "k dvd x")
  case True
  then obtain q where q: "x = k * q" by auto
  then have "x - 1 = (k - 1) + k * (q - 1)" by (simp add: algebra_simps)
  then have "(x - 1) div k = q - 1" using assms by (simp only: div_mult_self2) simp
  then show ?thesis using q assms by simp
next
  case False
  then have "0 < x mod k" "x mod k < k" using assms by (simp_all add: dvd_eq_mod_eq_0 order_le_neq_trans)
  moreover have "x - 1 = (x mod k - 1) + k * (x div k)" using mult_div_mod_eq [of k x] by linarith
  ultimately have "(x - 1) div k = x div k" by (simp only: div_mult_self2) simp
  then show ?thesis using False by simp
qed

lemma shifted_div_step:
  fixes k y :: int
  assumes "0 < k"
  shows "(y - k * c) div k = (y - k * c - 1) div k + (if k dvd y then 1 else 0)"
proof -
  have "k dvd y - k * c \<longleftrightarrow> k dvd y" by (simp add: dvd_diff_left_iff)
  then show ?thesis using div_step [OF assms, of "y - k * c"] by simp
qed

text \<open>A year has 366 days if it is a leap year and 365 otherwise.\<close>

lemma day_from_year_step:
  "day_from_year (y + 1) = day_from_year y + (if leap_year y then 366 else 365)"
proof -
  have eqs: "(y - 1968) div 4 = (y - 1969) div 4 + (if 4 dvd y then 1 else 0)"
    "(y - 1900) div 100 = (y - 1901) div 100 + (if 100 dvd y then 1 else 0)"
    "(y - 1600) div 400 = (y - 1601) div 400 + (if 400 dvd y then 1 else 0)"
    using shifted_div_step [of 4 y 492] shifted_div_step [of 100 y 19] shifted_div_step [of 400 y 4]
    by simp_all
  have shift: "y + 1 - 1969 = y - 1968" "y + 1 - 1901 = y - 1900" "y + 1 - 1601 = y - 1600"
    by simp_all
  have "day_from_year (y + 1) = day_from_year y + 365 + (if 4 dvd y then 1 else 0)
      - (if 100 dvd y then 1 else 0) + (if 400 dvd y then 1 else 0)"
    unfolding day_from_year_def shift eqs by simp
  moreover have "100 dvd y \<Longrightarrow> 4 dvd y" "400 dvd y \<Longrightarrow> 100 dvd y"
    using dvd_trans [of 4 100 y] dvd_trans [of 100 400 y] by simp_all
  ultimately show ?thesis
    unfolding leap_year_def
    by (cases "400 dvd y"; cases "100 dvd y"; cases "4 dvd y") (simp_all only: if_True if_False; simp)+
qed

text \<open>The year of a day: the last one that starts no later, searched upwards from below.\<close>

function year_up :: "int \<Rightarrow> int \<Rightarrow> int" where
  "year_up d y = (if day_from_year (y + 1) \<le> d then year_up d (y + 1) else y)"
  by auto
termination
  by (relation "measure (\<lambda>(d, y). nat (d - day_from_year y))")
     (auto simp: day_from_year_step split: if_splits)

declare year_up.simps [simp del]

definition year_from_day :: "int \<Rightarrow> int" where
  "year_from_day d = year_up d (1969 + (if 0 \<le> d then d div 366 else d div 365))"

fun month_and_date :: "int list \<Rightarrow> int \<Rightarrow> int \<Rightarrow> int \<times> int" where
  "month_and_date [] m d = (m, d + 1)"
| "month_and_date (l # ls) m d =
     (if d < l \<or> ls = [] then (m, d + 1) else month_and_date ls (m + 1) (d - l))"

definition month_lengths :: "int \<Rightarrow> int list" where
  "month_lengths y =
     [31, if leap_year y then 29 else 28, 31, 30, 31, 30, 31, 31, 30, 31, 30, 31]"

section \<open>FormattedDate.js\<close>

definition padZero :: "int \<Rightarrow> string" where
  "padZero i = (if i < 10 then ''0'' @ show_int i else show_int i)"

record utc =
  utc_hours :: int
  utc_minutes :: int
  utc_month :: int
  utc_date :: int
  utc_fullYear :: int

text \<open>The getters of \<open>new Date(date * 1000)\<close>; \<open>utc_month\<close> counts from 0 as JavaScript does.\<close>

definition utc_of :: "int \<Rightarrow> utc" where
  "utc_of date =
     (let t = date * 1000;
          day = t div 86400000;
          y = year_from_day day;
          (m, d) = month_and_date (month_lengths y) 0 (day - day_from_year y)
      in \<lparr> utc_hours = t div 3600000 mod 24, utc_minutes = t div 60000 mod 60,
           utc_month = m, utc_date = d, utc_fullYear = y \<rparr>)"

text \<open>Beyond the range of \<open>Date\<close> every getter gives \<open>NaN\<close>, which \<open>padZero\<close> passes on.\<close>

definition nl :: string where
  "nl = [CHR 0x0A]"

definition date_text :: "string \<Rightarrow> string \<Rightarrow> string \<Rightarrow> string \<Rightarrow> string \<Rightarrow> string" where
  "date_text hh mi mo dd yy =
     nl @ ''    '' @ hh @ '':'' @ mi @ nl @ ''    '' @ mo @ ''/'' @ dd @ ''/'' @ yy @ nl @ ''    UTC'' @ nl @ ''  ''"

definition formatDate :: "jsval \<Rightarrow> string result" where
  "formatDate date =
     (if \<not> truthy date then Inr []
      else case date of
             JNum n \<Rightarrow>
               if \<bar>n * 1000\<bar> > 8640000000000000
               then Inr (date_text ''NaN'' ''NaN'' ''NaN'' ''NaN'' ''NaN'')
               else let u = utc_of n in
                    Inr (date_text (padZero (utc_hours u)) (padZero (utc_minutes u))
                      (padZero (utc_month u + 1)) (padZero (utc_date u)) (padZero (utc_fullYear u)))
           | _ \<Rightarrow> Inl (OutsideModel ''a date that is not a number''))"

section \<open>The search finds the year\<close>

lemma year_up_spec:
  "day_from_year y \<le> d \<Longrightarrow>
   day_from_year (year_up d y) \<le> d \<and> d < day_from_year (year_up d y + 1)"
proof (induction d y rule: year_up.induct)
  case (1 d y)
  then show ?case by (cases "day_from_year (y + 1) \<le> d") (simp_all add: year_up.simps [of d y])
qed

lemma mult_div_bounds:
  fixes k x :: int
  assumes "0 < k"
  shows "k * (x div k) \<le> x" "x - k + 1 \<le> k * (x div k)"
  using mult_div_mod_eq [of k x] pos_mod_sign [OF assms, of x] pos_mod_bound [OF assms, of x]
  by linarith+

lemma upper_arith:
  "4 * a \<le> y - 1969 \<Longrightarrow> y - 2000 \<le> 100 * b \<Longrightarrow> 400 * c \<le> y - 1601 \<Longrightarrow>
   400 * (365 * (y - 1970) + a - b + c) \<le> 146097 * (y - 1970) + 589" for a b c y :: int
  by (simp add: algebra_simps)

lemma day_from_year_upper: "400 * day_from_year y \<le> 146097 * (y - 1970) + 589"
proof -
  have "y - 1901 - 100 + 1 \<le> 100 * ((y - 1901) div 100)" by (rule mult_div_bounds(2)) simp
  then have "y - 2000 \<le> 100 * ((y - 1901) div 100)" by simp
  then show ?thesis
    unfolding day_from_year_def
    by (intro upper_arith) (auto intro: mult_div_bounds(1))
qed

lemma estimate_arith:
  fixes m d :: int
  shows "366 * m + 366 \<le> d \<Longrightarrow> - 1 \<le> m \<Longrightarrow> 146097 * m + 589 \<le> 400 * d"
    and "365 * m + 365 \<le> d \<Longrightarrow> m < - 1 \<Longrightarrow> 146097 * m + 589 \<le> 400 * d"
  by arith+

lemma year_from_day_spec:
  "day_from_year (year_from_day d) \<le> d \<and> d < day_from_year (year_from_day d + 1)"
proof -
  define m where "m = (if 0 \<le> d then d div 366 else d div 365) - 1"
  have "146097 * m + 589 \<le> 400 * d"
  proof (cases "0 \<le> d")
    case True
    then have "366 * m + 366 \<le> d" "- 1 \<le> m"
      using mult_div_bounds(1) [of 366 d]
      by (simp_all add: m_def algebra_simps pos_imp_zdiv_nonneg_iff)
    then show ?thesis by (rule estimate_arith(1))
  next
    case False
    then have "365 * m + 365 \<le> d" "m < - 1"
      using mult_div_bounds(1) [of 365 d]
      by (simp_all add: m_def algebra_simps pos_imp_zdiv_neg_iff)
    then show ?thesis by (rule estimate_arith(2))
  qed
  then have "400 * day_from_year (1970 + m) \<le> 400 * d"
    using day_from_year_upper [of "1970 + m"] by simp
  then have "day_from_year (1970 + m) \<le> d" by simp
  moreover have "year_from_day d = year_up d (1970 + m)" by (simp add: year_from_day_def m_def)
  ultimately show ?thesis using year_up_spec by metis
qed

lemma month_and_date_spec:
  assumes "month_and_date ls m d = (m', d')" "0 \<le> d" "d < sum_list ls" "ls \<noteq> []"
    and "list_all (\<lambda>l. 0 < l) ls"
  shows "m \<le> m' \<and> m' < m + int (length ls) \<and> 1 \<le> d' \<and> d' \<le> ls ! nat (m' - m) \<and>
         d = sum_list (take (nat (m' - m)) ls) + d' - 1"
  using assms
proof (induction ls m d arbitrary: m' d' rule: month_and_date.induct)
  case (2 l ls m d)
  show ?case
  proof (cases "d < l \<or> ls = []")
    case True
    then show ?thesis using 2 by auto
  next
    case False
    then have rec: "month_and_date ls (m + 1) (d - l) = (m', d')" using 2 by simp
    have IH: "m + 1 \<le> m' \<and> m' < m + 1 + int (length ls) \<and> 1 \<le> d' \<and> d' \<le> ls ! nat (m' - (m + 1)) \<and>
         d - l = sum_list (take (nat (m' - (m + 1))) ls) + d' - 1"
      using 2 False rec by auto
    then have "nat (m' - m) = Suc (nat (m' - (m + 1)))" by linarith
    then show ?thesis using IH by auto
  qed
qed simp

lemma sum_month_lengths: "sum_list (month_lengths y) = (if leap_year y then 366 else 365)"
  by (simp add: month_lengths_def)

section \<open>Hours, minutes and the time stamp\<close>

lemma hours_minutes:
  fixes t :: int
  shows "t * 1000 div 86400000 = t div 86400" "t * 1000 div 3600000 = t div 3600"
    "t * 1000 div 60000 = t div 60"
  using div_mult_mult1 [of 1000 t 86400] div_mult_mult1 [of 1000 t 3600] div_mult_mult1 [of 1000 t 60]
  by (simp_all add: mult.commute)

lemma minutes_arith:
  "m = 60 * h + a \<Longrightarrow> h = 24 * q + b \<Longrightarrow> m * 60 = q * 86400 + b * 3600 + a * 60" for m h a q b :: int
  by simp

lemma clock_arith:
  fixes t :: int
  shows "t div 86400 * 86400 + (t div 3600 mod 24) * 3600 + (t div 60 mod 60) * 60 = t div 60 * 60"
proof -
  define m where "m = t div 60"
  define h where "h = m div 60"
  have "t div 3600 = h" "t div 86400 = h div 24"
    using zdiv_zmult2_eq [of 60 t 60] zdiv_zmult2_eq [of 24 t 3600] by (simp_all add: m_def h_def)
  moreover have "m = 60 * h + m mod 60" "h = 24 * (h div 24) + h mod 24" by (simp_all add: h_def)
  then have "m * 60 = h div 24 * 86400 + h mod 24 * 3600 + m mod 60 * 60"
    by (rule minutes_arith)
  ultimately show ?thesis by (simp add: m_def)
qed

lemma utc_of_spec:
  "\<exists>y m dd. utc_of t = \<lparr> utc_hours = t div 3600 mod 24, utc_minutes = t div 60 mod 60, utc_month = m,
      utc_date = dd, utc_fullYear = y \<rparr> \<and>
    0 \<le> m \<and> m < 12 \<and> 1 \<le> dd \<and> dd \<le> month_lengths y ! nat m \<and>
    day_from_year y + sum_list (take (nat m) (month_lengths y)) + dd - 1 = t div 86400"
proof -
  define d where "d = t div 86400"
  define y where "y = year_from_day d"
  obtain m dd where md: "month_and_date (month_lengths y) 0 (d - day_from_year y) = (m, dd)"
    by (cases "month_and_date (month_lengths y) 0 (d - day_from_year y)")
  have "0 \<le> d - day_from_year y" "d - day_from_year y < sum_list (month_lengths y)"
    using year_from_day_spec [of d] day_from_year_step [of y] sum_month_lengths [of y]
    by (simp_all add: y_def)
  moreover have "month_lengths y \<noteq> []" "length (month_lengths y) = 12"
    "list_all (\<lambda>l. 0 < l) (month_lengths y)"
    by (simp_all add: month_lengths_def)
  ultimately have "0 \<le> m \<and> m < 12 \<and> 1 \<le> dd \<and> dd \<le> month_lengths y ! nat m \<and>
      d - day_from_year y = sum_list (take (nat m) (month_lengths y)) + dd - 1"
    using month_and_date_spec [OF md] by simp
  moreover have "utc_of t = \<lparr> utc_hours = t div 3600 mod 24, utc_minutes = t div 60 mod 60,
      utc_month = m, utc_date = dd, utc_fullYear = y \<rparr>"
    using md by (simp add: utc_of_def Let_def hours_minutes d_def y_def)
  ultimately show ?thesis by (intro exI [of _ y] exI [of _ m] exI [of _ dd]) (simp add: d_def)
qed

lemma utc_ranges:
  "0 \<le> utc_hours (utc_of t)" "utc_hours (utc_of t) < 24"
  "0 \<le> utc_minutes (utc_of t)" "utc_minutes (utc_of t) < 60"
  "0 \<le> utc_month (utc_of t)" "utc_month (utc_of t) < 12" "1 \<le> utc_date (utc_of t)"
  "utc_date (utc_of t) \<le> month_lengths (utc_fullYear (utc_of t)) ! nat (utc_month (utc_of t))"
  using utc_of_spec [of t] by auto

text \<open>Counting days, hours and minutes gives back the time stamp up to its seconds.\<close>

definition instant :: "utc \<Rightarrow> int" where
  "instant u =
     (day_from_year (utc_fullYear u)
      + sum_list (take (nat (utc_month u)) (month_lengths (utc_fullYear u)))
      + utc_date u - 1) * 86400
     + utc_hours u * 3600 + utc_minutes u * 60"

lemma instant_utc_of: "instant (utc_of t) = t - t mod 60"
proof -
  have "t div 86400 * 86400 + t div 3600 mod 24 * 3600 + t div 60 mod 60 * 60 = t - t mod 60"
    using clock_arith [of t] minus_mod_eq_div_mult [of t 60] by (simp only:)
  moreover obtain y m dd where u: "utc_of t = \<lparr> utc_hours = t div 3600 mod 24,
      utc_minutes = t div 60 mod 60, utc_month = m, utc_date = dd, utc_fullYear = y \<rparr>"
    and days: "day_from_year y + sum_list (take (nat m) (month_lengths y)) + dd - 1 = t div 86400"
    using utc_of_spec [of t] by blast
  ultimately show ?thesis by (simp only: instant_def u utc.select_convs days)
qed

lemma utc_of_minute: "utc_of s = utc_of t \<longleftrightarrow> s div 60 = t div 60"
proof
  assume "utc_of s = utc_of t"
  then have "s - s mod 60 = t - t mod 60" by (simp only: instant_utc_of [symmetric])
  then have "s div 60 * 60 = t div 60 * 60" by (simp only: minus_mod_eq_div_mult)
  then show "s div 60 = t div 60" by simp
next
  assume same: "s div 60 = t div 60"
  have "s div 3600 = s div 60 div 60" "s div 86400 = s div 60 div 1440"
    "t div 3600 = t div 60 div 60" "t div 86400 = t div 60 div 1440"
    using zdiv_zmult2_eq [of 60 _ 60] zdiv_zmult2_eq [of 1440 _ 60] by simp_all
  then have "s div 3600 = t div 3600" "s div 86400 = t div 86400" by (simp_all only: same)
  then show "utc_of s = utc_of t" by (simp only: utc_of_def Let_def hours_minutes same)
qed

section \<open>The text determines its parts\<close>

lemma padZero_inj [simp]: "padZero i = padZero j \<longleftrightarrow> i = j"
proof -
  have zero: "show_int n \<noteq> CHR ''0'' # cs" if "\<not> n < 10" for n cs
  proof
    assume *: "show_int n = CHR ''0'' # cs"
    have "0 < nat n" using that by simp
    then obtain d ds where "show_nat (nat n) = digit_char d # ds" "d < 10" "0 < d"
      using show_nat_first [of "nat n"] by blast
    then show False using * that digit_of_digit_char [of d] by (auto simp: digit_of_def show_int_def)
  qed
  show ?thesis
    by (cases "i < 10"; cases "j < 10") (auto simp: padZero_def zero zero [THEN not_sym])
qed

lemma length_padZero: "0 \<le> i \<Longrightarrow> i < 100 \<Longrightarrow> length (padZero i) = 2"
  by (auto simp: padZero_def show_int_def show_nat.simps)

lemma date_text_inj:
  assumes "length a = length a'" "length b = length b'" "length c = length c'" "length d = length d'"
  shows "date_text a b c d y = date_text a' b' c' d' y' \<longleftrightarrow> a = a' \<and> b = b' \<and> c = c' \<and> d = d' \<and> y = y'"
  using assms by (auto simp: date_text_def)

text \<open>A time stamp in the range of \<open>Date\<close> that \<open>!date\<close> does not take for a missing one.\<close>

definition representable :: "int \<Rightarrow> bool" where
  "representable t \<longleftrightarrow> t \<noteq> 0 \<and> \<bar>t * 1000\<bar> \<le> 8640000000000000"

lemma formatDate_number:
  assumes "representable t"
  shows "formatDate (JNum t) = Inr (date_text (padZero (utc_hours (utc_of t)))
    (padZero (utc_minutes (utc_of t))) (padZero (utc_month (utc_of t) + 1))
    (padZero (utc_date (utc_of t))) (padZero (utc_fullYear (utc_of t))))"
  using assms by (simp add: formatDate_def representable_def Let_def)

lemma month_lengths_le: "m < 12 \<Longrightarrow> month_lengths y ! m \<le> 31"
proof -
  assume "m < 12"
  then have "month_lengths y ! m \<in> set (month_lengths y)"
    by (intro nth_mem) (simp add: month_lengths_def)
  then show ?thesis by (auto simp: month_lengths_def split: if_splits)
qed

lemma length_parts:
  "length (padZero (utc_hours (utc_of t))) = 2" "length (padZero (utc_minutes (utc_of t))) = 2"
  "length (padZero (utc_month (utc_of t) + 1)) = 2" "length (padZero (utc_date (utc_of t))) = 2"
proof -
  have "utc_date (utc_of t) \<le> 31"
    using utc_ranges(5,6,8) [of t] by (intro order_trans [OF _ month_lengths_le]) auto
  then show "length (padZero (utc_hours (utc_of t))) = 2" "length (padZero (utc_minutes (utc_of t))) = 2"
    "length (padZero (utc_month (utc_of t) + 1)) = 2" "length (padZero (utc_date (utc_of t))) = 2"
    using utc_ranges [of t] by (simp_all add: length_padZero)
qed

section \<open>Properties\<close>


text \<open>
  C28: Within the range of Date, the texts shown for two time stamps are equal exactly when the
  time stamps lie in the same minute; a missing date (and the time stamp 0, which formatDate
  takes for one) is shown as the empty text, which no other date has.
\<close>

theorem formatDate_identifies_minute:
  assumes "representable s" "representable t"
  shows "(formatDate (JNum s) = formatDate (JNum t) \<longleftrightarrow> s div 60 = t div 60) \<and>
         formatDate (JNum s) \<noteq> Inr [] \<and>
         formatDate JUndef = Inr [] \<and> formatDate JNull = Inr [] \<and> formatDate (JNum 0) = Inr []"
proof -
  have "formatDate (JNum s) = formatDate (JNum t) \<longleftrightarrow> utc_of s = utc_of t"
    using assms by (auto simp: formatDate_number date_text_inj length_parts intro: utc.equality)
  then show ?thesis
    using assms by (simp add: utc_of_minute formatDate_number date_text_def nl_def)
      (simp add: formatDate_def)
qed

text \<open>The date of the test suite.\<close>

lemma utc_of_1487202496:
  "utc_of 1487202496 =
     \<lparr> utc_hours = 23, utc_minutes = 48, utc_month = 1, utc_date = 15, utc_fullYear = 2017 \<rparr>"
proof -
  have "year_up 17212 2017 = 2017"
    by (subst year_up.simps) (simp add: day_from_year_def)
  then have "year_up 17212 2016 = 2017"
    by (subst year_up.simps) (simp add: day_from_year_def)
  then show ?thesis
    by (simp add: utc_of_def year_from_day_def day_from_year_def month_lengths_def leap_year_def)
qed

theorem formatDate_identifies_minute_witness:
  "formatDate (JNum 1487202496) = Inr (date_text ''23'' ''48'' ''02'' ''15'' ''2017'') \<and>
   formatDate (JNum 1487202500) = formatDate (JNum 1487202496)"
proof -
  have r: "representable 1487202496" "representable 1487202500" by (simp_all add: representable_def)
  have "formatDate (JNum 1487202496) = Inr (date_text ''23'' ''48'' ''02'' ''15'' ''2017'')"
    using r(1) by (simp add: formatDate_number utc_of_1487202496 padZero_def show_int_def
        show_nat.simps digit_char_def)
  then show ?thesis using formatDate_identifies_minute [OF r(2,1)] by simp
qed

end
