(* ===== verification/History_Reducer.thy ===== *)
theory History_Reducer
  imports Actions
begin

text \<open>
  The undo history (\<^verbatim>\<open>src/admin/public/src/reducers/history.jsx\<close>): a reducer built around another
  reducer, which it calls on the present state.

  \<open>present\<close> is the state object without its \<open>history\<close> field, an \<open>entry\<close> of the history is such an
  object with the \<open>change\<close> that led away from it (past) or back to it (future), and \<open>ns_result\<close> is
  the object the inner reducer returns, whose \<open>change\<close> and \<open>history\<close> fields may be absent.

  The abstract view is \<open>edit_log\<close>: the sequence of all states the user can move through, the
  change between each two neighbours and a position. The locale \<open>undoable\<close> says what the history
  needs from the inner reducer; in it the history is shown to implement the log.
\<close>

section \<open>State\<close>

record change =
  c_type :: string
  c_key :: string
  c_value :: jsval

record present =
  items :: jsval
  version :: jsval

record entry =
  e_change :: "change option"
  e_present :: present

record history =
  past :: "entry list"
  future :: "entry list"

record ns_state =
  cur :: present
  hist :: history

record ns_result =
  r_present :: present
  r_change :: "change option"
  r_history :: "history option"

type_synonym inner_reducer = "present \<Rightarrow> action \<Rightarrow> (ns_result \<times> action) result"

definition no_history :: history where
  "no_history = \<lparr> past = [], future = [] \<rparr>"

definition INITIAL_HISTORY :: ns_state where
  "INITIAL_HISTORY = \<lparr> cur = \<lparr> items = JObj [], version = JUndef \<rparr>, hist = no_history \<rparr>"

section \<open>The reducer\<close>

definition MERGEABLE_CHANGES :: "string list" where
  "MERGEABLE_CHANGES = [''UPDATE_NAMESPACE'', ''UPDATE_BUCKET'']"

definition undo :: "ns_state \<Rightarrow> ns_state" where
  "undo state =
     (case past (hist state) of
        [] \<Rightarrow> state
      | e # rest \<Rightarrow>
          \<lparr> cur = e_present e,
            hist = \<lparr> past = rest,
                     future = future (hist state)
                       @ [\<lparr> e_change = e_change e, e_present = cur state \<rparr>] \<rparr> \<rparr>)"

definition redo :: "ns_state \<Rightarrow> ns_state" where
  "redo state =
     (if future (hist state) = [] then state
      else let e = last (future (hist state)) in
           \<lparr> cur = e_present e,
             hist = \<lparr> past = \<lparr> e_change = e_change e, e_present = cur state \<rparr> # past (hist state),
                      future = butlast (future (hist state)) \<rparr> \<rparr>)"

text \<open>A missing \<open>change\<close> object makes the field reads throw.\<close>

definition changesMergeable :: "change option \<Rightarrow> change option \<Rightarrow> bool result" where
  "changesMergeable previous current =
     (case current of
        None \<Rightarrow> Inl (TypeError ''Cannot read property type'')
      | Some c \<Rightarrow>
          if c_type c \<in> set MERGEABLE_CHANGES
          then (case previous of
                  None \<Rightarrow> Inl (TypeError ''Cannot read property type'')
                | Some p \<Rightarrow> Inr (c_type p = c_type c \<and> c_key p = c_key c))
          else Inr False)"

definition reduce :: "inner_reducer \<Rightarrow> ns_state \<Rightarrow> action \<Rightarrow> (ns_state \<times> action) result" where
  "reduce reducer state action =
     and_then (reducer (cur state) action) (\<lambda>(res, action').
       if \<not> is_mutable action'
       then Inr (\<lparr> cur = r_present res,
                   hist = (case r_history res of Some h \<Rightarrow> h | None \<Rightarrow> hist state) \<rparr>, action')
       else and_then
              (case past (hist state) of
                 [] \<Rightarrow> Inr (cur state, [])
               | lastPastEntry # restPastHistory \<Rightarrow>
                   and_then (changesMergeable (e_change lastPastEntry) (r_change res)) (\<lambda>merge.
                     if merge then Inr (e_present lastPastEntry, restPastHistory)
                     else Inr (cur state, past (hist state))))
              (\<lambda>(nextPastState, nextPastHistory).
                 Inr (\<lparr> cur = r_present res,
                        hist = \<lparr> past = \<lparr> e_change = r_change res, e_present = nextPastState \<rparr>
                                        # nextPastHistory,
                                 future = [] \<rparr> \<rparr>, action')))"

definition history_reducer ::
  "inner_reducer \<Rightarrow> ns_state option \<Rightarrow> action \<Rightarrow> (ns_state \<times> action) result" where
  "history_reducer reducer st action =
     (let state = (case st of None \<Rightarrow> INITIAL_HISTORY | Some s \<Rightarrow> s) in
      case action of
        UNDO \<Rightarrow> Inr (undo state, action)
      | REDO \<Rightarrow> Inr (redo state, action)
      | _ \<Rightarrow> reduce reducer state action)"

text \<open>
  Running a list of actions. An action whose reducer throws leaves the store's state as it was
  (\<open>dispatch\<close> of the store assigns the new state only when the reducer returns).
\<close>

definition apply_action :: "inner_reducer \<Rightarrow> ns_state \<Rightarrow> action \<Rightarrow> ns_state" where
  "apply_action reducer s a =
     (case history_reducer reducer (Some s) a of Inl _ \<Rightarrow> s | Inr (s', _) \<Rightarrow> s')"

fun run_actions :: "inner_reducer \<Rightarrow> ns_state \<Rightarrow> action list \<Rightarrow> ns_state" where
  "run_actions reducer s [] = s"
| "run_actions reducer s (a # as) = run_actions reducer (apply_action reducer s a) as"

section \<open>The abstract edit log\<close>

record edit_log =
  states :: "present list"
  labels :: "change option list"
  pos :: nat

definition log_of :: "ns_state \<Rightarrow> edit_log" where
  "log_of s =
     \<lparr> states = rev (map e_present (past (hist s))) @ [cur s]
                  @ rev (map e_present (future (hist s))),
       labels = rev (map e_change (past (hist s))) @ rev (map e_change (future (hist s))),
       pos = length (past (hist s)) \<rparr>"

definition log_undo :: "edit_log \<Rightarrow> edit_log" where
  "log_undo l = l\<lparr> pos := pos l - 1 \<rparr>"

definition log_redo :: "edit_log \<Rightarrow> edit_log" where
  "log_redo l = l\<lparr> pos := min (Suc (pos l)) (length (states l) - 1) \<rparr>"

text \<open>An edit cuts off what was undone and appends the new state.\<close>

definition log_push :: "present \<Rightarrow> change option \<Rightarrow> edit_log \<Rightarrow> edit_log" where
  "log_push p c l =
     \<lparr> states = take (Suc (pos l)) (states l) @ [p],
       labels = take (pos l) (labels l) @ [c],
       pos = Suc (pos l) \<rparr>"

text \<open>A merged edit takes the place of the edit that led to the present state.\<close>

definition log_replace :: "present \<Rightarrow> change option \<Rightarrow> edit_log \<Rightarrow> edit_log" where
  "log_replace p c l =
     \<lparr> states = take (pos l) (states l) @ [p],
       labels = take (pos l - 1) (labels l) @ [c],
       pos = pos l \<rparr>"

definition log_present :: "edit_log \<Rightarrow> present" where
  "log_present l = states l ! pos l"

text \<open>The first state of the log: what undoing everything leads to.\<close>

definition origin :: "ns_state \<Rightarrow> present" where
  "origin s = hd (states (log_of s))"

text \<open>Every entry describes its change.\<close>

definition labelled :: "ns_state \<Rightarrow> bool" where
  "labelled s \<longleftrightarrow>
     list_all (\<lambda>e. e_change e \<noteq> None) (past (hist s)) \<and>
     list_all (\<lambda>e. e_change e \<noteq> None) (future (hist s))"

text \<open>The new change merges with the one that led to the present state.\<close>

definition merges :: "ns_state \<Rightarrow> change option \<Rightarrow> bool" where
  "merges s c \<longleftrightarrow>
     (case past (hist s) of
        [] \<Rightarrow> False
      | e # _ \<Rightarrow> changesMergeable (e_change e) c = Inr True)"

definition log_merges :: "edit_log \<Rightarrow> change option \<Rightarrow> bool" where
  "log_merges l c \<longleftrightarrow> 0 < pos l \<and> changesMergeable (labels l ! (pos l - 1)) c = Inr True"

text \<open>One action on the log, with the inner reducer applied to the state at the position.\<close>

definition log_apply :: "inner_reducer \<Rightarrow> edit_log \<Rightarrow> action \<Rightarrow> edit_log" where
  "log_apply reducer l a =
     (if a = UNDO then log_undo l
      else if a = REDO then log_redo l
      else case reducer (log_present l) a of
             Inl _ \<Rightarrow> l
           | Inr (r, _) \<Rightarrow>
               if edit_action a
               then if log_merges l (r_change r) then log_replace (r_present r) (r_change r) l
                    else log_push (r_present r) (r_change r) l
               else if r_history r = None then l
               else \<lparr> states = [r_present r], labels = [], pos = 0 \<rparr>)"

section \<open>Undo and redo\<close>

lemma log_of_undo: "log_of (undo s) = log_undo (log_of s)"
  by (simp add: undo_def log_of_def log_undo_def split: list.split)

lemma log_of_redo: "log_of (redo s) = log_redo (log_of s)"
proof (cases "future (hist s)" rule: rev_cases)
  case Nil
  then show ?thesis by (simp add: redo_def log_of_def log_redo_def)
next
  case (snoc es e)
  then show ?thesis by (simp add: redo_def log_of_def log_redo_def Let_def)
qed

lemma log_present_cur: "log_present (log_of s) = cur s"
  by (simp add: log_present_def log_of_def nth_append)

lemma pos_bounds: "pos (log_of s) < length (states (log_of s))"
  by (simp add: log_of_def)

lemma labels_length: "length (states (log_of s)) = Suc (length (labels (log_of s)))"
  by (simp add: log_of_def)

text \<open>The log determines the state: the concrete representation is exactly a log.\<close>

lemma log_of_inject:
  assumes "log_of s = log_of t"
  shows "s = t"
proof -
  let ?p = "past (hist s)" and ?q = "past (hist t)"
  let ?f = "future (hist s)" and ?g = "future (hist t)"
  have len: "length ?p = length ?q" using assms by (simp add: log_of_def)
  have st: "map e_present ?p = map e_present ?q \<and> cur s = cur t \<and>
            map e_present ?f = map e_present ?g"
    using assms len by (simp add: log_of_def)
  have lb: "map e_change ?p = map e_change ?q \<and> map e_change ?f = map e_change ?g"
    using assms len by (simp add: log_of_def)
  have entries: "xs = ys" if "map e_present xs = map e_present ys" "map e_change xs = map e_change ys"
    for xs ys :: "entry list"
    using that
  proof (induction xs arbitrary: ys)
    case (Cons x xs)
    then show ?case by (cases ys) auto
  qed simp
  have "?p = ?q" "?f = ?g" using st lb by (auto intro: entries)
  then show ?thesis using st by (simp add: history.equality ns_state.equality)
qed

lemma log_redo_undo: "0 < pos l \<Longrightarrow> pos l < length (states l) \<Longrightarrow> log_redo (log_undo l) = l"
  by (simp add: log_redo_def log_undo_def)

lemma log_undo_redo: "Suc (pos l) < length (states l) \<Longrightarrow> log_undo (log_redo l) = l"
  by (simp add: log_redo_def log_undo_def)

lemma merges_log: "merges s c = log_merges (log_of s) c"
  by (cases "past (hist s)") (auto simp: merges_def log_merges_def log_of_def nth_append)

lemma redo_undo:
  assumes "past (hist s) \<noteq> []"
  shows "redo (undo s) = s"
proof (rule log_of_inject)
  have "0 < pos (log_of s)" using assms by (simp add: log_of_def)
  then show "log_of (redo (undo s)) = log_of s"
    by (simp add: log_of_undo log_of_redo log_redo_undo pos_bounds)
qed

lemma undo_redo:
  assumes "future (hist s) \<noteq> []"
  shows "undo (redo s) = s"
proof (rule log_of_inject)
  have "Suc (pos (log_of s)) < length (states (log_of s))" using assms by (simp add: log_of_def)
  then show "log_of (undo (redo s)) = log_of s"
    by (simp add: log_of_undo log_of_redo log_undo_redo)
qed

lemma origin_undo [simp]: "origin (undo s) = origin s"
  by (simp add: origin_def log_of_undo log_undo_def)

lemma origin_redo [simp]: "origin (redo s) = origin s"
  by (simp add: origin_def log_of_redo log_redo_def)

lemma undo_all:
  "cur ((undo ^^ length (past (hist s))) s) = origin s"
  "past (hist ((undo ^^ length (past (hist s))) s)) = []"
proof -
  have step: "log_of ((undo ^^ n) s) = (log_of s)\<lparr> pos := pos (log_of s) - n \<rparr>" for n
    by (induction n) (simp_all add: log_of_undo log_undo_def)
  have "pos (log_of ((undo ^^ length (past (hist s))) s)) = 0"
    by (simp add: step) (simp add: log_of_def)
  then show "past (hist ((undo ^^ length (past (hist s))) s)) = []"
    by (simp add: log_of_def)
  have "log_present (log_of ((undo ^^ length (past (hist s))) s)) = hd (states (log_of s))"
    by (simp add: step log_present_def) (simp add: log_of_def hd_conv_nth)
  then show "cur ((undo ^^ length (past (hist s))) s) = origin s"
    by (simp add: log_present_cur origin_def)
qed

lemma labelled_undo: "labelled s \<Longrightarrow> labelled (undo s)"
  by (auto simp: labelled_def undo_def split: list.split)

lemma labelled_redo: "labelled s \<Longrightarrow> labelled (redo s)"
  by (cases "future (hist s)" rule: rev_cases) (auto simp: labelled_def redo_def Let_def)

lemma labelled_no_history [simp]: "labelled \<lparr> cur = p, hist = no_history \<rparr>"
  by (simp add: labelled_def no_history_def)

lemma log_of_no_history [simp]:
  "log_of \<lparr> cur = p, hist = no_history \<rparr> = \<lparr> states = [p], labels = [], pos = 0 \<rparr>"
  by (simp add: log_of_def no_history_def)

lemma ns_state_eta [simp]: "\<lparr> cur = cur s, hist = hist s \<rparr> = s"
  by simp

lemma labelled_initial: "labelled INITIAL_HISTORY"
  by (simp add: INITIAL_HISTORY_def)

lemma changesMergeable_Some:
  "changesMergeable (Some p) (Some c) =
     Inr (c_type c \<in> set MERGEABLE_CHANGES \<and> c_type p = c_type c \<and> c_key p = c_key c)"
  by (simp add: changesMergeable_def)

section \<open>What the history needs from the inner reducer\<close>

text \<open>
  An edit returns a description of the change and no history of its own; the action object may
  be altered but stays an edit. Any other action either keeps the present state or, when it loads
  a configuration, returns an empty history to start from.
\<close>

locale undoable =
  fixes reducer :: inner_reducer
    and loads :: "action \<Rightarrow> bool"
  assumes edit_change:
      "edit_action a \<Longrightarrow> reducer p a = Inr (r, a') \<Longrightarrow>
       r_change r \<noteq> None \<and> r_history r = None \<and> edit_action a'"
    and other_keeps:
      "app_action a \<Longrightarrow> \<not> edit_action a \<Longrightarrow> reducer p a = Inr (r, a') \<Longrightarrow>
       a' = a \<and> (r_history r = None \<and> r_present r = p \<or> r_history r = Some no_history)"
    and only_loads:
      "\<not> loads a \<Longrightarrow> reducer p a = Inr (r, a') \<Longrightarrow> r_history r = None"
begin

lemma reduce_edit_eq:
  assumes "labelled s" "edit_action a" "reducer (cur s) a = Inr (r, a')"
  shows "reduce reducer s a =
           Inr (\<lparr> cur = r_present r, hist =
                  \<lparr> past = (if merges s (r_change r)
                           then \<lparr> e_change = r_change r, e_present = e_present (hd (past (hist s))) \<rparr>
                                # tl (past (hist s))
                           else \<lparr> e_change = r_change r, e_present = cur s \<rparr> # past (hist s)),
                    future = [] \<rparr> \<rparr>, a')"
proof -
  obtain d where d: "r_change r = Some d" and mut: "is_mutable a'"
    using edit_change [OF assms(2,3)] by (auto simp: edit_action_mutable)
  show ?thesis
  proof (cases "past (hist s)")
    case Nil
    then show ?thesis using mut assms(3) by (simp add: reduce_def merges_def)
  next
    case (Cons e es)
    then obtain c where "e_change e = Some c" using assms(1) by (auto simp: labelled_def)
    then show ?thesis
      using mut assms(3) Cons d by (simp add: reduce_def merges_def changesMergeable_Some)
  qed
qed

lemma reduce_edit:
  assumes "labelled s" "edit_action a" "reducer (cur s) a = Inr (r, a')"
  shows "\<exists>s'. reduce reducer s a = Inr (s', a') \<and> cur s' = r_present r \<and> labelled s' \<and>
           log_of s' = (if merges s (r_change r) then log_replace (r_present r) (r_change r) (log_of s)
                        else log_push (r_present r) (r_change r) (log_of s))"
proof -
  have "r_change r \<noteq> None" using edit_change [OF assms(2,3)] by simp
  then show ?thesis
    using assms(1)
    by (cases "past (hist s)")
       (auto simp: reduce_edit_eq [OF assms] merges_def labelled_def log_of_def log_push_def
         log_replace_def)
qed

lemma reduce_other:
  assumes "app_action a" "\<not> edit_action a" "reducer (cur s) a = Inr (r, a')"
  shows "reduce reducer s a = Inr (s, a) \<or>
         reduce reducer s a = Inr (\<lparr> cur = r_present r, hist = no_history \<rparr>, a)"
proof -
  have "a' = a" and r: "r_history r = None \<and> r_present r = cur s \<or> r_history r = Some no_history"
    using other_keeps [OF assms] by auto
  moreover have "\<not> is_mutable a" using assms(1,2) by (simp add: is_mutable_iff)
  ultimately show ?thesis using assms(3) by (auto simp: reduce_def)
qed

lemma apply_action_cases:
  assumes "labelled s" "app_action a"
  obtains (undo) "a = UNDO" "apply_action reducer s a = undo s"
    | (redo) "a = REDO" "apply_action reducer s a = redo s"
    | (throws) e where "reducer (cur s) a = Inl e" "apply_action reducer s a = s"
    | (edit) r a' where "edit_action a" "reducer (cur s) a = Inr (r, a')"
        "labelled (apply_action reducer s a)" "cur (apply_action reducer s a) = r_present r"
        "log_of (apply_action reducer s a) =
           (if merges s (r_change r) then log_replace (r_present r) (r_change r) (log_of s)
            else log_push (r_present r) (r_change r) (log_of s))"
    | (other) "\<not> edit_action a" "apply_action reducer s a = s"
    | (load) r where "\<not> edit_action a" "reducer (cur s) a = Inr (r, a)"
        "r_history r = Some no_history"
        "apply_action reducer s a = \<lparr> cur = r_present r, hist = no_history \<rparr>"
proof (cases "a = UNDO \<or> a = REDO")
  case True
  then show ?thesis
    using undo redo by (auto simp: apply_action_def history_reducer_def)
next
  case False
  then have hr: "history_reducer reducer (Some s) a = reduce reducer s a"
    by (cases a) (auto simp: history_reducer_def)
  show ?thesis
  proof (cases "reducer (cur s) a")
    case (Inl e)
    then show ?thesis using throws hr by (auto simp: apply_action_def reduce_def)
  next
    case (Inr ra)
    then obtain r a' where ra: "reducer (cur s) a = Inr (r, a')" by (cases ra) auto
    show ?thesis
    proof (cases "edit_action a")
      case True
      then show ?thesis
        using edit [OF True ra] reduce_edit [OF assms(1) True ra] hr
        by (auto simp: apply_action_def)
    next
      case False
      then have "a' = a" and "\<not> is_mutable a"
        using other_keeps [OF assms(2) False ra] assms(2) by (auto simp: is_mutable_iff)
      then show ?thesis
        using other_keeps [OF assms(2) False ra] False ra hr other load
        by (auto simp: apply_action_def reduce_def)
    qed
  qed
qed

lemma labelled_apply:
  assumes "labelled s" "app_action a"
  shows "labelled (apply_action reducer s a)"
  using assms
  by (cases rule: apply_action_cases) (simp_all add: assms(1) labelled_undo labelled_redo)

lemma labelled_run:
  "labelled s \<Longrightarrow> list_all app_action as \<Longrightarrow> labelled (run_actions reducer s as)"
  by (induction as arbitrary: s) (auto simp: labelled_apply)

text \<open>The history implements the log, action by action.\<close>

lemma log_of_apply:
  assumes "labelled s" "app_action a"
  shows "log_of (apply_action reducer s a) = log_apply reducer (log_of s) a"
proof (cases "a = UNDO \<or> a = REDO")
  case True
  then show ?thesis
    by (auto simp: apply_action_def history_reducer_def log_of_undo log_of_redo log_apply_def)
next
  case False
  then have hr: "history_reducer reducer (Some s) a = reduce reducer s a"
    by (cases a) (auto simp: history_reducer_def)
  show ?thesis
  proof (cases "reducer (cur s) a")
    case (Inl e)
    then show ?thesis
      using False hr by (simp add: apply_action_def reduce_def log_apply_def log_present_cur)
  next
    case (Inr ra)
    then obtain r a' where ra: "reducer (cur s) a = Inr (r, a')" by (cases ra) auto
    show ?thesis
    proof (cases "edit_action a")
      case True
      then show ?thesis
        using False ra hr reduce_edit [OF assms(1) True ra]
        by (auto simp: apply_action_def log_apply_def log_present_cur merges_log)
    next
      case nedit: False
      then show ?thesis
        using False ra hr other_keeps [OF assms(2) nedit ra] assms(2)
        by (auto simp: apply_action_def log_apply_def log_present_cur reduce_def is_mutable_iff)
    qed
  qed
qed

lemma log_of_run:
  "labelled s \<Longrightarrow> list_all app_action as \<Longrightarrow>
   log_of (run_actions reducer s as) = fold (\<lambda>a l. log_apply reducer l a) as (log_of s)"
  by (induction as arbitrary: s) (simp_all add: labelled_apply log_of_apply)

text \<open>What the inner reducer keeps of a state holds of every state the user can move to.\<close>

lemma states_apply:
  assumes "labelled s" "app_action a"
    and "\<And>p r a'. P p \<Longrightarrow> reducer p a = Inr (r, a') \<Longrightarrow> P (r_present r)"
    and "list_all P (states (log_of s))"
  shows "list_all P (states (log_of (apply_action reducer s a)))"
proof -
  have "P (log_present (log_of s))"
    using assms(4) nth_mem [OF pos_bounds [of s]] by (simp add: log_present_def list_all_iff)
  then show ?thesis
    using assms(3) [of "log_present (log_of s)"] assms(4)
    by (auto simp: log_of_apply [OF assms(1,2)] log_apply_def log_undo_def log_redo_def log_push_def
        log_replace_def list_all_iff dest: in_set_takeD split: sum.split)
qed

lemma states_run:
  assumes "labelled s" "list_all app_action as"
    and "\<And>a p r a'. a \<in> set as \<Longrightarrow> P p \<Longrightarrow> reducer p a = Inr (r, a') \<Longrightarrow> P (r_present r)"
    and "list_all P (states (log_of s))"
  shows "list_all P (states (log_of (run_actions reducer s as)))"
  using assms
proof (induction as arbitrary: s)
  case (Cons a as)
  have "list_all P (states (log_of (apply_action reducer s a)))"
    using Cons.prems(2) by (intro states_apply Cons.prems(1,4)) (auto intro: Cons.prems(3))
  then show ?case
    using Cons.prems labelled_apply [of s a] by (auto intro!: Cons.IH)
qed simp

text \<open>Edits, undos and redos never touch the first state of the log.\<close>

lemma hd_take_Suc: "xs \<noteq> [] \<Longrightarrow> hd (take (Suc n) xs @ ys) = hd xs"
  by (cases xs) auto

lemma origin_apply:
  assumes "labelled s" "app_action a" "\<not> loads a"
  shows "origin (apply_action reducer s a) = origin s"
  using assms(1,2)
proof (cases rule: apply_action_cases)
  case (edit r a')
  have ne: "states (log_of s) \<noteq> []" by (simp add: log_of_def)
  show ?thesis
  proof (cases "merges s (r_change r)")
    case True
    then obtain n where "pos (log_of s) = Suc n"
      by (auto simp: merges_def log_of_def split: list.splits)
    then show ?thesis
      using edit True ne by (simp add: origin_def log_replace_def hd_take_Suc)
  next
    case False
    then show ?thesis using edit ne by (simp add: origin_def log_push_def hd_take_Suc)
  qed
next
  case (load r)
  then show ?thesis using only_loads [OF assms(3)] by auto
qed auto

lemma origin_run:
  "labelled s \<Longrightarrow> list_all (\<lambda>a. app_action a \<and> \<not> loads a) as \<Longrightarrow>
   origin (run_actions reducer s as) = origin s"
  by (induction as arbitrary: s) (auto simp: labelled_apply origin_apply)

text \<open>After any such run, undoing until nothing is left restores the first state.\<close>

lemma undo_all_run:
  assumes "labelled s" "list_all (\<lambda>a. app_action a \<and> \<not> loads a) as"
    and "t = run_actions reducer s as"
  shows "cur ((undo ^^ length (past (hist t))) t) = origin s"
  using origin_run [OF assms(1,2)] assms(3) by (simp add: undo_all)

text \<open>One undo takes back one edit.\<close>

lemma undo_edit:
  assumes "labelled s" "edit_action a" "reducer (cur s) a = Inr (r, a')" "\<not> merges s (r_change r)"
  shows "cur (undo (apply_action reducer s a)) = cur s \<and>
         past (hist (undo (apply_action reducer s a))) = past (hist s) \<and>
         redo (undo (apply_action reducer s a)) = apply_action reducer s a"
proof -
  have "history_reducer reducer (Some s) a = reduce reducer s a"
    using assms(2) by (cases a) (auto simp: history_reducer_def)
  then have "past (hist (apply_action reducer s a)) =
             \<lparr> e_change = r_change r, e_present = cur s \<rparr> # past (hist s)"
    using assms(4) by (simp add: apply_action_def reduce_edit_eq [OF assms(1-3)])
  moreover from this have "redo (undo (apply_action reducer s a)) = apply_action reducer s a"
    by (intro redo_undo) simp
  ultimately show ?thesis by (simp add: undo_def)
qed

text \<open>Two edits that merge are taken back together: one undo leads to before the first.\<close>

lemma undo_merged_edit:
  assumes "labelled s" "edit_action a" "reducer (cur s) a = Inr (r, a')" "merges s (r_change r)"
  shows "undo (apply_action reducer s a) =
           (undo s)\<lparr> hist := (hist (undo s))\<lparr> future :=
              [\<lparr> e_change = r_change r, e_present = r_present r \<rparr>] \<rparr> \<rparr>"
proof -
  have hr: "history_reducer reducer (Some s) a = reduce reducer s a"
    using assms(2) by (cases a) (auto simp: history_reducer_def)
  obtain e es where "past (hist s) = e # es"
    using assms(4) by (auto simp: merges_def split: list.splits)
  then show ?thesis
    using assms(4) hr by (simp add: apply_action_def reduce_edit_eq [OF assms(1-3)] undo_def)
qed

end

end
