(* ===== verification/Components.thy ===== *)
theory Components
  imports Input_Field Dates History_Reducer
begin

text \<open>
  The presentational components (\<^verbatim>\<open>src/admin/public/src/components\<close>) as functions from properties
  to the elements React is given.

  \<^item> \<open>vnode\<close>: text, a DOM element with attributes and children, or a component element with its
    properties (\<open>element\<close>), which React renders in turn.
  \<^item> \<open>handler\<close>: the event handlers that are passed around, as data: what each does is in
    \<open>Containers\<close>.
  \<^item> \<open>child_of\<close>: what React makes of a value between braces: nothing for \<open>undefined\<close>, \<open>null\<close>,
    booleans and functions, text for numbers and strings, an exception for an object.

  A render function returns a \<open>result\<close>: reading a property of \<open>undefined\<close> throws.
\<close>

section \<open>Elements\<close>

text \<open>
  The properties of a field. Its target is the closure \<open>handleChange(keyName)\<close> (see \<open>Input_Field\<close>),
  here with the names as values.
\<close>

datatype edit_target_val =
    Of_namespace jsval
  | Of_bucket jsval jsval

record field_props =
  fp_keyName :: string
  fp_parent :: jsval
  fp_disabled :: bool
  fp_value :: jsval
  fp_target :: edit_target_val
  fp_title :: string
  fp_placeholder :: "string option"

datatype handler =
    H_undo
  | H_redo
  | H_refresh
  | H_commit
  | H_load jsval
  | H_select jsval bool
  | H_select_none
  | H_remove_namespace jsval
  | H_remove_bucket jsval jsval
  | H_toggle_stats
  | H_clear_confirm
  | H_confirm dispatchable
  | H_field_input field_props
  | H_set_text string
  | H_add_namespace
  | H_add_bucket "string option"
  | H_search

datatype attr =
    A_text string
  | A_val jsval
  | A_bool bool
  | A_on handler

text \<open>Component elements with their properties. A flag that may be absent is an option.\<close>

record bucket_props =
  bp_namespace_name :: jsval
  bp_bucket :: jsval
  bp_canMakeChanges :: "bool option"
  bp_showDynamicStats :: bool

record tile_props =
  tp_capabilities :: props
  tp_capabilitiesEnabled :: bool
  tp_isSelected :: bool
  tp_namespace :: jsval

datatype element =
    E_AddField string string string handler handler
    \<comment> \<open>value, placeholder, submitText, handleChange, handleSubmit\<close>
  | E_Change string "change option"
  | E_Changes history
  | E_Config jsval handler
  | E_Configs jsval
  | E_Error jsval
  | E_Field field_props
  | E_Bucket bucket_props
  | E_NamespaceHeader jsval "bool option" handler
    \<comment> \<open>namespace, canMakeChanges, handleBack\<close>
  | E_NamespaceTile string tile_props
    \<comment> \<open>with its key\<close>
  | E_Namespace jsval bool
  | E_Stats jsval
  | E_Sidebar
  | E_Namespaces
  | E_SelectedNamespace
  | E_Confirmation dispatchable string "string option"

datatype vnode =
    Txt string
  | El string "(string \<times> attr) list" "vnode list"
  | Comp element

fun child_of :: "jsval \<Rightarrow> vnode list result"
  and children_of :: "jsval list \<Rightarrow> vnode list result"
where
  "child_of JUndef = Inr []"
| "child_of JNull = Inr []"
| "child_of (JBool b) = Inr []"
| "child_of (JNum n) = Inr [Txt (show_int n)]"
| "child_of (JStr s) = Inr [Txt s]"
| "child_of (JFun f) = Inr []"
| "child_of (JObj kvs) = Inl (PlainError ''Objects are not valid as a React child'')"
| "child_of (JArr xs) = children_of xs"
| "children_of [] = Inr []"
| "children_of (x # xs) =
     and_then (child_of x) (\<lambda>cs. and_then (children_of xs) (\<lambda>ds. Inr (cs @ ds)))"

text \<open>Rendering a list: the first exception ends it.\<close>

fun map_result :: "('a \<Rightarrow> 'b result) \<Rightarrow> 'a list \<Rightarrow> 'b list result" where
  "map_result f [] = Inr []"
| "map_result f (x # xs) =
     and_then (f x) (\<lambda>y. and_then (map_result f xs) (\<lambda>ys. Inr (y # ys)))"

definition cls :: "string \<Rightarrow> string \<times> attr" where
  "cls names = (''className'', A_text names)"

section \<open>AddField.jsx\<close>

definition AddField_render :: "string \<Rightarrow> string \<Rightarrow> string \<Rightarrow> handler \<Rightarrow> handler \<Rightarrow> vnode" where
  "AddField_render val placeholder submitText handleChange handleSubmit =
     El ''form'' [cls ''flex-container input-box flex-wrap flex-end'', (''onSubmit'', A_on handleSubmit)]
       [El ''input'' [(''type'', A_text ''text''), (''placeholder'', A_text placeholder),
                      cls ''flex-box'', (''value'', A_text val), (''onChange'', A_on handleChange)] [],
        El ''button'' [(''type'', A_text ''submit''), cls ''btn btn-primary btn-attached'']
          [Txt submitText]]"

section \<open>Change.jsx\<close>

definition change_object :: "change \<Rightarrow> jsval" where
  "change_object c = JObj [(''type'', JStr (c_type c)), (''key'', JStr (c_key c)), (''value'', c_value c)]"

definition description :: "change option \<Rightarrow> vnode result" where
  "description ch =
     (case ch of
        None \<Rightarrow> Inl (TypeError ''Cannot read property type'')
      | Some c \<Rightarrow>
          if c_type c \<in> {''ADD_NAMESPACE'', ''ADD_BUCKET''}
          then Inr (El ''span'' [cls ''change-text''] [Txt ''add '', Txt (c_key c)])
          else if c_type c \<in> {''UPDATE_NAMESPACE'', ''UPDATE_BUCKET''}
          then and_then (child_of (c_value c)) (\<lambda>v.
                 Inr (El ''span'' [cls ''change-text'']
                   ([Txt ''set '', Txt (c_key c), Txt ('' to '' @ [CHR 0x22])] @ v @ [Txt [CHR 0x22]])))
          else if c_type c \<in> {''REMOVE_NAMESPACE'', ''REMOVE_BUCKET''}
          then Inr (El ''span'' [cls ''change-text''] [Txt ''remove '', Txt (c_key c)])
          else Inr (Txt (''Unknown change: '' @
                 (case json_stringify (change_object c) of None \<Rightarrow> ''undefined'' | Some t \<Rightarrow> t))))"

definition Change_render :: "string \<Rightarrow> change option \<Rightarrow> vnode result" where
  "Change_render className ch =
     and_then (description ch) (\<lambda>d. Inr (El ''div'' [cls (''change '' @ className)] [d]))"

section \<open>Config.jsx\<close>

definition Config_render :: "jsval \<Rightarrow> handler \<Rightarrow> vnode result" where
  "Config_render config handleClick =
     and_then (get_prop config ''version'') (\<lambda>ver.
     and_then (get_prop config ''user'') (\<lambda>user.
     and_then (get_prop config ''date'') (\<lambda>date.
     and_then (formatDate date) (\<lambda>shown.
     and_then (child_of (js_or ver (JNum 0))) (\<lambda>vs.
     and_then (child_of (js_or user (JStr ''unknown''))) (\<lambda>us.
       Inr (El ''div'' [cls ''config'', (''onClick'', A_on handleClick)]
         [El ''span'' [cls ''sha''] (Txt ''v'' # vs),
          El ''span'' [cls ''user''] ([Txt '' by ''] @ us @ [Txt '' at '']),
          El ''span'' [cls ''date''] [Txt (if shown = [] then ''unknown'' else shown)]])))))))"

section \<open>Confirmation.jsx\<close>

definition Confirmation_render :: "dispatchable \<Rightarrow> string \<Rightarrow> string option \<Rightarrow> vnode" where
  "Confirmation_render a header body =
     El ''div'' [cls ''overlay fill-height-container flex-container flex-centered'']
       [El ''div'' [cls ''confirmation flex-container flex-column'']
          ([El ''h4'' [] [Txt header]]
           @ (case body of None \<Rightarrow> [] | Some t \<Rightarrow> [El ''div'' [cls ''code''] [Txt t]])
           @ [El ''div'' [cls ''confirmation-footer'']
                [El ''button'' [cls ''btn'', (''onClick'', A_on H_clear_confirm)] [Txt ''Cancel''],
                 El ''button'' [cls ''btn btn-danger'', (''onClick'', A_on (H_confirm a))]
                   [Txt ''Confirm'']]])]"

section \<open>Error.jsx\<close>

definition in_quotes :: "string \<Rightarrow> string" where
  "in_quotes s = [CHR 0x22] @ s @ [CHR 0x22]"

definition renderError :: "jsval \<Rightarrow> jsval result" where
  "renderError error =
     and_then (get_prop error ''name'') (\<lambda>name.
       if name = JStr ''RequestError''
       then and_then (get_prop error ''message'') (\<lambda>m.
              Inr (JStr (''A network error occurred: '' @ in_quotes (to_str m))))
       else if name = JStr ''ApiError''
       then and_then (get_prop error ''response'') (\<lambda>response.
              if truthy response then get_prop response ''description''
              else and_then (get_prop error ''statusText'') (\<lambda>t.
                     Inr (JStr (''An error occurred: '' @ in_quotes (to_str t)))))
       else Inr (JStr (''An unknown error occurred. Please contact your friendly '' @
                       ''QuotaService owners for help.'')))"

definition Error_render :: "jsval \<Rightarrow> vnode result" where
  "Error_render error =
     and_then (renderError error) (\<lambda>v. and_then (child_of v) (\<lambda>cs.
       Inr (El ''div'' [cls ''error''] cs)))"

section \<open>Field.jsx\<close>

definition Field_render :: "field_props \<Rightarrow> field_state \<Rightarrow> vnode" where
  "Field_render p st =
     El ''div'' [cls ''flex-container input-box'']
       [El ''label'' [(''htmlFor'', A_text (f_id st)), cls ''input-label'']
          [if fp_title p \<noteq> []
           then El ''abbr'' [(''title'', A_text (fp_title p))] [Txt (fp_keyName p)]
           else Txt (fp_keyName p)],
        El ''div'' [cls ''input-field'']
          [El ''input'' ([(''type'', A_text ''text''), (''id'', A_text (f_id st)),
                         (''value'', A_val (f_value st)), (''disabled'', A_bool (fp_disabled p)),
                         (''onChange'', A_on (H_field_input p))]
                        @ (case fp_placeholder p of
                             None \<Rightarrow> [] | Some t \<Rightarrow> [(''placeholder'', A_text t)])) []]]"

section \<open>NamespaceHeader.jsx\<close>

definition NamespaceHeader_render :: "jsval \<Rightarrow> bool option \<Rightarrow> handler \<Rightarrow> vnode result" where
  "NamespaceHeader_render namespace can handleBack =
     and_then (get_prop namespace ''name'') (\<lambda>name.
     and_then (child_of name) (\<lambda>title.
       Inr (El ''div'' [cls ''namespace-navbar flex-container'']
         [El ''button'' [cls ''btn'', (''onClick'', A_on handleBack)] [Txt ''Back''],
          El ''p'' [cls ''title''] title,
          El ''div'' []
            (if can \<noteq> Some False
             then [El ''button'' [cls ''btn btn-danger'', (''onClick'', A_on (H_remove_namespace name))]
                     [Txt ''Remove Namespace'']]
             else [])])))"

end
