(* ===== verification/Seamless_Immutable.thy ===== *)
theory Seamless_Immutable
  imports JS_Prelude
begin

text \<open>
  The operations of the seamless-immutable library that the reducers call, translated from the
  copy that is compiled into \<^verbatim>\<open>src/admin/public/js/bundle.js\<close> (its first line; the minified
  names are given with each definition): \<open>Immutable.from\<close>, \<open>set\<close>, \<open>setIn\<close>, \<open>updateIn\<close> and
  \<open>without\<close> on objects. An immutable object carries its methods as own, non-enumerable
  properties, so a data property with the name of a method is lost when the object is built, and
  the library asks \<open>this.hasOwnProperty\<close>, which a data property of that name hides.

  The locale \<open>path_store\<close> is the contract the reducers rely on (what a read returns after a write
  or a removal, and that every operation keeps the tree well formed); it is interpreted on the
  definitions of this theory.
\<close>

section \<open>Definitions\<close>

text \<open>The own properties that \<open>G\<close> and \<open>g\<close> of the bundle define on every immutable object.\<close>

definition immutable_names :: "string list" where
  "immutable_names =
     [''merge'', ''replace'', ''without'', ''asMutable'', ''set'', ''setIn'', ''update'',
      ''updateIn'', ''getIn'', ''__immutable_invariants_hold'', ''setPrototypeOf'']"

text \<open>\<open>G\<close>: the enumerable properties that are left once the methods are in place.\<close>

definition make_immutable_object :: "props \<Rightarrow> props" where
  "make_immutable_object kvs = filter (\<lambda>kv. fst kv \<notin> set immutable_names) kvs"

text \<open>\<open>H\<close>: \<open>Immutable.from\<close>, with its nesting limit, which starts afresh inside an array.\<close>

fun im_from :: "nat \<Rightarrow> jsval \<Rightarrow> jsval result"
  and im_from_props :: "nat \<Rightarrow> props \<Rightarrow> props result"
  and im_from_list :: "jsval list \<Rightarrow> jsval list result"
where
  "im_from n (JObj kvs) =
     (if n = 0
      then Inl (ImmutableError
             ''Attempt to construct Immutable from a deeply nested object was detected.'')
      else and_then (im_from_props (n - 1) kvs) (\<lambda>kvs'. Inr (JObj (make_immutable_object kvs'))))"
| "im_from n (JArr xs) = and_then (im_from_list xs) (\<lambda>ys. Inr (JArr ys))"
| "im_from n JUndef = Inr JUndef"
| "im_from n JNull = Inr JNull"
| "im_from n (JBool b) = Inr (JBool b)"
| "im_from n (JNum i) = Inr (JNum i)"
| "im_from n (JStr s) = Inr (JStr s)"
| "im_from n (JFun f) = Inr (JFun f)"
| "im_from_props n [] = Inr []"
| "im_from_props n ((k, v) # kvs) =
     and_then (im_from n v) (\<lambda>v'.
     and_then (im_from_props n kvs) (\<lambda>kvs'.
       Inr (if k = ''__proto__'' then kvs' else (k, v') # kvs')))"
| "im_from_list [] = Inr []"
| "im_from_list (x # xs) =
     and_then (im_from 64 x) (\<lambda>y. and_then (im_from_list xs) (\<lambda>ys. Inr (y # ys)))"

definition immutable_from :: "jsval \<Rightarrow> jsval result" where
  "immutable_from v = im_from 64 v"

text \<open>\<open>this.hasOwnProperty(k)\<close>: a method call, so a data property of that name breaks it.\<close>

definition has_own :: "props \<Rightarrow> string \<Rightarrow> bool result" where
  "has_own this k =
     (if map_of this ''hasOwnProperty'' \<noteq> None
      then Inl (TypeError ''this.hasOwnProperty is not a function'')
      else Inr (map_of this k \<noteq> None))"

text \<open>
  \<open>U\<close>: the method \<open>set\<close>. The early return for an identical value is taken here for primitive
  values; for an identical object the copy below is equal to \<open>this\<close>. The argument \<open>conv\<close> is what
  \<open>H\<close> does to the new value: \<open>immutable_from\<close> for a fresh one, nothing (\<open>Inr\<close>) for a value that
  is immutable already, which \<open>H\<close> returns as it is.
\<close>

definition im_set :: "(jsval \<Rightarrow> jsval result) \<Rightarrow> props \<Rightarrow> string \<Rightarrow> jsval \<Rightarrow> props result" where
  "im_set conv this k v =
     and_then (has_own this k) (\<lambda>own.
       if own \<and> is_primitive v \<and> map_of this k = Some v then Inr this
       else and_then (conv v) (\<lambda>v'.
              Inr (make_immutable_object (put_prop this k v'))))"

text \<open>\<open>L\<close>: the method \<open>setIn\<close>. Arrays on the way are updated by a method of arrays, not modelled.\<close>

fun im_setIn ::
  "(jsval \<Rightarrow> jsval result) \<Rightarrow> props \<Rightarrow> string list \<Rightarrow> jsval \<Rightarrow> props result" where
  "im_setIn conv this [] v =
     Inl (TypeError (''The first argument to Immutable#setIn must be an array containing '' @
                     ''at least one \"key\" string.''))"
| "im_setIn conv this [k] v = im_set conv this k v"
| "im_setIn conv this (k # k2 # ks) v =
     and_then (has_own this k) (\<lambda>own.
     and_then
       (case map_of this k of
          Some (JObj sub) \<Rightarrow> im_setIn conv sub (k2 # ks) v
        | Some (JArr xs) \<Rightarrow> Inl (OutsideModel ''setIn on an array'')
        | _ \<Rightarrow> im_setIn conv [] (k2 # ks) v)
       (\<lambda>sub'. Inr (make_immutable_object (put_prop this k (JObj sub')))))"

text \<open>Reading \<open>e[k]\<close> of an immutable value: its methods come before inherited members.\<close>

definition im_prop :: "jsval \<Rightarrow> string \<Rightarrow> jsval" where
  "im_prop v k =
     (case v of
        JObj _ \<Rightarrow> if k = ''__immutable_invariants_hold'' then JBool True
                  else if k \<in> set immutable_names then JFun k else prop_of v k
      | _ \<Rightarrow> prop_of v k)"

text \<open>\<open>B\<close>: the loop that follows a path as long as the value is not null or undefined.\<close>

fun get_path_loop :: "jsval \<Rightarrow> string list \<Rightarrow> jsval" where
  "get_path_loop e [] = e"
| "get_path_loop e (k # ks) = (if nullish e then JUndef else get_path_loop (im_prop e k) ks)"

definition get_path :: "jsval \<Rightarrow> string list \<Rightarrow> jsval" where
  "get_path e ks = (if ks = [] then JUndef else get_path_loop e ks)"

text \<open>
  \<open>q\<close>: the method \<open>updateIn\<close>. The callers' functions return immutable objects.
\<close>

definition im_updateIn :: "props \<Rightarrow> string list \<Rightarrow> (jsval \<Rightarrow> jsval result) \<Rightarrow> props result" where
  "im_updateIn this ks f =
     and_then (f (get_path (JObj this) ks)) (\<lambda>v. im_setIn Inr this ks v)"

text \<open>
  \<open>C\<close>: the method \<open>without\<close>. A string names the key to drop. A function is taken as a predicate
  on value and key, called without a receiver, and an entry stays only if it returns \<open>false\<close>:
  \<open>Object.prototype.toString\<close> and \<open>Object\<close> never do, \<open>isPrototypeOf\<close> does for a primitive, and
  the others (and \<open>isPrototypeOf\<close> for an object) throw because their receiver is \<open>undefined\<close>.
  Any other object drops nothing, since no key is identical to it.
\<close>

definition native_predicate :: "string \<Rightarrow> jsval \<Rightarrow> bool result" where
  "native_predicate f v =
     (if f = ''toString'' \<or> f = ''Object'' then Inr True
      else if f = ''isPrototypeOf'' \<and> is_primitive v then Inr False
      else Inl (TypeError ''Cannot convert undefined or null to object''))"

fun filter_native :: "string \<Rightarrow> props \<Rightarrow> props result" where
  "filter_native f [] = Inr []"
| "filter_native f ((k, v) # kvs) =
     and_then (native_predicate f v) (\<lambda>gone.
     and_then (filter_native f kvs) (\<lambda>kvs'. Inr (if gone then kvs' else (k, v) # kvs')))"

fun number_key :: "jsval \<Rightarrow> jsval" where
  "number_key (JNum n) = JStr (show_int n)"
| "number_key v = v"

definition im_without :: "props \<Rightarrow> jsval \<Rightarrow> props result" where
  "im_without this e =
     (if map_of this ''hasOwnProperty'' \<noteq> None
      then Inl (TypeError ''this.hasOwnProperty is not a function'')
      else case e of
             JFun f \<Rightarrow> and_then (filter_native f this) (\<lambda>kvs. Inr (make_immutable_object kvs))
           | JUndef \<Rightarrow> Inr (make_immutable_object this)
           | JStr k \<Rightarrow> Inr (make_immutable_object (filter (\<lambda>kv. fst kv \<noteq> k) this))
           | JNum n \<Rightarrow> Inr (make_immutable_object (filter (\<lambda>kv. fst kv \<noteq> show_int n) this))
           | JArr ks \<Rightarrow> Inr (make_immutable_object
                 (filter (\<lambda>kv. JStr (fst kv) \<notin> set (map number_key ks)) this))
           | _ \<Rightarrow> Inr (make_immutable_object this))"

text \<open>The method calls \<open>v.set(k, w)\<close>, \<open>v.setIn(p, w)\<close>, \<open>v.updateIn(p, f)\<close> and \<open>v.without(k)\<close>.\<close>

definition on_object :: "string \<Rightarrow> jsval \<Rightarrow> (props \<Rightarrow> props result) \<Rightarrow> jsval result" where
  "on_object method v f =
     (case v of
        JObj kvs \<Rightarrow> and_then (f kvs) (\<lambda>kvs'. Inr (JObj kvs'))
      | JArr _ \<Rightarrow> if method = ''without'' then Inl (TypeError (method @ '' is not a function''))
                  else Inl (OutsideModel (method @ '' on an array''))
      | JUndef \<Rightarrow> Inl (TypeError (''Cannot read property '' @ method))
      | JNull \<Rightarrow> Inl (TypeError (''Cannot read property '' @ method))
      | _ \<Rightarrow> Inl (TypeError (method @ '' is not a function'')))"

definition call_set :: "jsval \<Rightarrow> string \<Rightarrow> jsval \<Rightarrow> jsval result" where
  "call_set v k w = on_object ''set'' v (\<lambda>kvs. im_set immutable_from kvs k w)"

definition call_setIn :: "jsval \<Rightarrow> string list \<Rightarrow> jsval \<Rightarrow> jsval result" where
  "call_setIn v p w = on_object ''setIn'' v (\<lambda>kvs. im_setIn immutable_from kvs p w)"

definition call_without :: "jsval \<Rightarrow> jsval \<Rightarrow> jsval result" where
  "call_without v k = on_object ''without'' v (\<lambda>kvs. im_without kvs k)"

definition call_updateIn :: "jsval \<Rightarrow> string list \<Rightarrow> (jsval \<Rightarrow> jsval result) \<Rightarrow> jsval result" where
  "call_updateIn v p f = on_object ''updateIn'' v (\<lambda>kvs. im_updateIn kvs p f)"

section \<open>Well-formed trees\<close>

text \<open>
  A configuration tree: objects nested in objects with distinct keys, none of which collides with
  the library's own names, and no arrays (the configuration has none).
\<close>

definition safe_key :: "string \<Rightarrow> bool" where
  "safe_key k \<longleftrightarrow> k \<notin> set immutable_names \<and> k \<noteq> ''__proto__'' \<and> k \<noteq> ''hasOwnProperty''"

fun wf_tree :: "jsval \<Rightarrow> bool"
  and wf_props :: "props \<Rightarrow> bool"
where
  "wf_tree (JObj kvs) = wf_props kvs"
| "wf_tree (JArr xs) = False"
| "wf_tree JUndef = True"
| "wf_tree JNull = True"
| "wf_tree (JBool b) = True"
| "wf_tree (JNum i) = True"
| "wf_tree (JStr s) = True"
| "wf_tree (JFun f) = True"
| "wf_props [] = True"
| "wf_props ((k, v) # kvs) =
     (safe_key k \<and> k \<notin> set (map fst kvs) \<and> wf_tree v \<and> wf_props kvs)"

fun tree_depth :: "jsval \<Rightarrow> nat"
  and props_depth :: "props \<Rightarrow> nat"
where
  "tree_depth (JObj kvs) = Suc (props_depth kvs)"
| "tree_depth (JArr xs) = 0"
| "tree_depth JUndef = 0"
| "tree_depth JNull = 0"
| "tree_depth (JBool b) = 0"
| "tree_depth (JNum i) = 0"
| "tree_depth (JStr s) = 0"
| "tree_depth (JFun f) = 0"
| "props_depth [] = 0"
| "props_depth ((k, v) # kvs) = max (tree_depth v) (props_depth kvs)"

fun is_obj :: "jsval \<Rightarrow> bool" where
  "is_obj (JObj _) = True"
| "is_obj _ = False"

definition config_tree :: "jsval \<Rightarrow> bool" where
  "config_tree v \<longleftrightarrow> is_obj v \<and> wf_tree v"

definition config_value :: "jsval \<Rightarrow> bool" where
  "config_value v \<longleftrightarrow> wf_tree v \<and> tree_depth v \<le> 64"

definition config_path :: "string list \<Rightarrow> bool" where
  "config_path p \<longleftrightarrow> p \<noteq> [] \<and> list_all safe_key p"

text \<open>The value at a path of own properties.\<close>

fun lookup_in :: "jsval \<Rightarrow> string list \<Rightarrow> jsval option" where
  "lookup_in v [] = Some v"
| "lookup_in (JObj kvs) (k # ks) =
     (case map_of kvs k of None \<Rightarrow> None | Some v \<Rightarrow> lookup_in v ks)"
| "lookup_in _ (k # ks) = None"

text \<open>Two paths that part: neither leads through the other.\<close>

fun diverge :: "'k list \<Rightarrow> 'k list \<Rightarrow> bool" where
  "diverge (a # p) (b # q) = (a \<noteq> b \<or> diverge p q)"
| "diverge _ _ = False"

section \<open>Laws\<close>

text \<open>What \<open>setIn\<close> computes on a well-formed tree, without the library's detours.\<close>

fun set_at :: "props \<Rightarrow> string list \<Rightarrow> jsval \<Rightarrow> props" where
  "set_at kvs [] v = kvs"
| "set_at kvs [k] v = put_prop kvs k v"
| "set_at kvs (k # k2 # ks) v =
     put_prop kvs k
       (JObj (set_at (case map_of kvs k of Some (JObj sub) \<Rightarrow> sub | _ \<Rightarrow> []) (k2 # ks) v))"

lemma wf_props_iff:
  "wf_props kvs \<longleftrightarrow>
     distinct (map fst kvs) \<and> (\<forall>(k, v) \<in> set kvs. safe_key k \<and> wf_tree v)"
proof (induction kvs)
  case (Cons kv kvs)
  obtain k v where "kv = (k, v)" by (cases kv)
  with Cons show ?case by (simp, blast)
qed simp

lemma wf_props_map_of:
  assumes "wf_props kvs" "map_of kvs k = Some v"
  shows "safe_key k \<and> wf_tree v"
  using assms by (auto simp: wf_props_iff dest: map_of_SomeD)

lemma wf_props_put_prop:
  assumes "wf_props kvs" "safe_key k" "wf_tree v"
  shows "wf_props (put_prop kvs k v)"
  using assms by (auto simp: wf_props_iff distinct_put_prop dest: set_put_prop)

lemma wf_props_filter: "wf_props kvs \<Longrightarrow> wf_props (filter P kvs)"
  by (auto simp: wf_props_iff distinct_map_filter)

lemma wf_props_immutable [im_simps]: "wf_props kvs \<Longrightarrow> make_immutable_object kvs = kvs"
  unfolding make_immutable_object_def
  by (rule filter_True) (auto simp: wf_props_iff safe_key_def)

lemma wf_props_no_hasOwn [im_simps]: "wf_props kvs \<Longrightarrow> map_of kvs ''hasOwnProperty'' = None"
  by (auto simp: wf_props_iff map_of_eq_None_iff safe_key_def)

lemma has_own_wf [im_simps]: "wf_props kvs \<Longrightarrow> has_own kvs k = Inr (map_of kvs k \<noteq> None)"
  by (simp add: has_own_def wf_props_no_hasOwn)

lemma im_from_wf:
  "wf_tree v \<Longrightarrow> tree_depth v \<le> n \<Longrightarrow> im_from n v = Inr v"
  "wf_props kvs \<Longrightarrow> props_depth kvs \<le> n \<Longrightarrow> im_from_props n kvs = Inr kvs"
proof (induction v and kvs arbitrary: n and n rule: wf_tree_wf_props.induct)
  case (1 kvs)
  then show ?case by (cases n) (auto simp: wf_props_immutable)
qed (auto simp: safe_key_def)

lemma immutable_from_config_value [im_simps]: "config_value v \<Longrightarrow> immutable_from v = Inr v"
  by (simp add: immutable_from_def config_value_def im_from_wf)

text \<open>
  JSON documents with safe distinct keys and bounded nesting, arrays included: \<open>Immutable.from\<close>
  keeps their content.
\<close>

fun json_ok :: "nat \<Rightarrow> jsval \<Rightarrow> bool"
  and json_props_ok :: "nat \<Rightarrow> props \<Rightarrow> bool"
  and json_list_ok :: "jsval list \<Rightarrow> bool"
where
  "json_ok n (JObj kvs) = (n > 0 \<and> json_props_ok (n - 1) kvs)"
| "json_ok n (JArr xs) = json_list_ok xs"
| "json_ok n JUndef = True"
| "json_ok n JNull = True"
| "json_ok n (JBool b) = True"
| "json_ok n (JNum i) = True"
| "json_ok n (JStr s) = True"
| "json_ok n (JFun f) = True"
| "json_props_ok n [] = True"
| "json_props_ok n ((k, v) # kvs) =
     (safe_key k \<and> k \<notin> set (map fst kvs) \<and> json_ok n v \<and> json_props_ok n kvs)"
| "json_list_ok [] = True"
| "json_list_ok (x # xs) = (json_ok 64 x \<and> json_list_ok xs)"

lemma json_props_ok_iff:
  "json_props_ok n kvs \<longleftrightarrow>
     distinct (map fst kvs) \<and> (\<forall>(k, v) \<in> set kvs. safe_key k \<and> json_ok n v)"
proof (induction kvs)
  case (Cons kv kvs)
  obtain k v where "kv = (k, v)" by (cases kv)
  with Cons show ?case by (simp, blast)
qed simp

lemma json_props_ok_immutable: "json_props_ok n kvs \<Longrightarrow> make_immutable_object kvs = kvs"
  by (auto simp: json_props_ok_iff make_immutable_object_def safe_key_def filter_id_conv)

lemma im_from_json_ok:
  "json_ok n v \<Longrightarrow> im_from n v = Inr v"
  "json_props_ok n kvs \<Longrightarrow> im_from_props n kvs = Inr kvs"
  "json_list_ok xs \<Longrightarrow> im_from_list xs = Inr xs"
  by (induction n v and n kvs and xs rule: im_from_im_from_props_im_from_list.induct)
     (auto simp: json_props_ok_immutable safe_key_def)

lemma json_props_ok_put_prop:
  "json_props_ok n kvs \<Longrightarrow> safe_key k \<Longrightarrow> json_ok n v \<Longrightarrow> json_props_ok n (put_prop kvs k v)"
  by (auto simp: json_props_ok_iff distinct_put_prop dest!: set_put_prop)

lemma json_props_ok_assign:
  "json_props_ok n kvs \<Longrightarrow> json_props_ok n src \<Longrightarrow> json_props_ok n (object_assign kvs (JObj src))"
  unfolding object_assign_def
  by (induction src arbitrary: kvs) (auto simp: json_props_ok_put_prop)

lemma put_prop_same: "map_of kvs k = Some v \<Longrightarrow> put_prop kvs k v = kvs"
  unfolding put_prop_def by (induction kvs) (auto split: if_splits)

lemma im_set_wf [im_simps]:
  assumes "wf_props kvs" "safe_key k" "wf_tree v" "conv v = Inr v"
  shows "im_set conv kvs k v = Inr (put_prop kvs k v)"
proof -
  have "wf_props (put_prop kvs k v)"
    using assms by (auto intro: wf_props_put_prop)
  then show ?thesis
    using assms by (auto simp: im_set_def im_simps put_prop_same)
qed

lemma wf_set_at:
  assumes "wf_props kvs" "list_all safe_key p" "wf_tree v"
  shows "wf_props (set_at kvs p v)"
  using assms
proof (induction kvs p v rule: set_at.induct)
  case (3 kvs k k2 ks v)
  have "wf_props (case map_of kvs k of Some (JObj sub) \<Rightarrow> sub | _ \<Rightarrow> [])"
    using "3.prems"(1) wf_props_map_of [of kvs k]
    by (auto split: option.split jsval.split)
  with 3 show ?case by (auto intro: wf_props_put_prop)
qed (auto intro: wf_props_put_prop)

lemma im_setIn_wf [im_simps]:
  assumes "wf_props kvs" "config_path p" "wf_tree v" "conv v = Inr v"
  shows "im_setIn conv kvs p v = Inr (set_at kvs p v)"
  using assms
proof (induction conv kvs p v rule: im_setIn.induct)
  case (3 conv kvs k k2 ks v)
  let ?sub = "case map_of kvs k of Some (JObj sub) \<Rightarrow> sub | _ \<Rightarrow> []"
  have sub: "wf_props ?sub" and safe: "safe_key k" "config_path (k2 # ks)"
    using "3.prems" wf_props_map_of [of kvs k]
    by (auto simp: config_path_def split: option.split jsval.split)
  have "(case map_of kvs k of
          Some (JObj sub) \<Rightarrow> im_setIn conv sub (k2 # ks) v
        | Some (JArr xs) \<Rightarrow> Inl (OutsideModel ''setIn on an array'')
        | _ \<Rightarrow> im_setIn conv [] (k2 # ks) v) = Inr (set_at ?sub (k2 # ks) v)"
    using 3 safe sub wf_props_map_of [of kvs k]
    by (auto split: option.split jsval.split)
  moreover have "wf_props (set_at ?sub (k2 # ks) v)"
    using sub safe "3.prems"(3) by (auto intro!: wf_set_at simp: config_path_def)
  then have "wf_props (put_prop kvs k (JObj (set_at ?sub (k2 # ks) v)))"
    using "3.prems"(1) safe by (auto intro: wf_props_put_prop)
  ultimately show ?case
    using "3.prems"(1) by (simp add: im_simps)
qed (auto simp: config_path_def im_simps)

lemma lookup_in_set_at_same [im_simps]:
  "config_path p \<Longrightarrow> lookup_in (JObj (set_at kvs p v)) p = Some v"
  by (induction kvs p v rule: set_at.induct) (auto simp: config_path_def js_simps safe_key_def)

lemma lookup_in_nested_other:
  assumes "\<And>sub. lookup_in (JObj (set_at sub p v)) q = lookup_in (JObj sub) q" "q \<noteq> []"
  shows "lookup_in (JObj (set_at (case w of Some (JObj sub) \<Rightarrow> sub | _ \<Rightarrow> []) p v)) q =
         (case w of None \<Rightarrow> None | Some u \<Rightarrow> lookup_in u q)"
  using assms by (cases q) (auto split: option.split jsval.split)

lemma lookup_in_set_at_other [im_simps]:
  "diverge p q \<Longrightarrow> lookup_in (JObj (set_at kvs p v)) q = lookup_in (JObj kvs) q"
proof (induction p q arbitrary: kvs rule: diverge.induct)
  case (1 a p b q)
  show ?case
  proof (cases "a = b")
    case True
    with 1 have "diverge p q" by simp
    then obtain k2 ks where p: "p = k2 # ks" and q: "q \<noteq> []" by (cases p; cases q) auto
    have "lookup_in (JObj (set_at (case map_of kvs a of Some (JObj sub) \<Rightarrow> sub | _ \<Rightarrow> []) p v)) q =
          (case map_of kvs a of None \<Rightarrow> None | Some u \<Rightarrow> lookup_in u q)"
      using "1.IH" \<open>diverge p q\<close> q by (intro lookup_in_nested_other)
    then show ?thesis using True p by (simp add: js_simps)
  next
    case False
    then show ?thesis by (cases p) (auto simp: js_simps)
  qed
qed auto

lemma im_prop_wf [im_simps]:
  assumes "wf_props kvs" "map_of kvs k = Some v"
  shows "im_prop (JObj kvs) k = v"
  using assms wf_props_map_of [of kvs k v]
  by (auto simp: im_prop_def safe_key_def immutable_names_def)

lemma get_path_loop_wf:
  assumes "wf_tree v" "lookup_in v p = Some w"
  shows "get_path_loop v p = w"
  using assms
proof (induction p arbitrary: v)
  case (Cons k ks)
  then obtain kvs u where "v = JObj kvs" "map_of kvs k = Some u" "lookup_in u ks = Some w"
    by (cases v) (auto split: option.splits)
  with Cons show ?case by (auto simp: im_simps dest: wf_props_map_of)
qed simp

lemma wf_tree_lookup_in: "wf_tree v \<Longrightarrow> lookup_in v p = Some w \<Longrightarrow> wf_tree w"
proof (induction v p rule: lookup_in.induct)
  case (2 kvs k ks)
  then show ?case by (auto split: option.splits dest: wf_props_map_of)
qed auto

lemma im_without_wf [im_simps]:
  "wf_props kvs \<Longrightarrow> im_without kvs (JStr k) = Inr (filter (\<lambda>kv. fst kv \<noteq> k) kvs)"
  by (simp add: im_without_def im_simps wf_props_filter)

subsection \<open>The operations as the reducers call them\<close>

definition remove_in :: "jsval \<Rightarrow> string list \<Rightarrow> string \<Rightarrow> jsval result" where
  "remove_in v p k = call_updateIn v p (\<lambda>c. call_without c (JStr k))"

lemma call_set_setIn: "is_obj v \<Longrightarrow> call_set v k w = call_setIn v [k] w"
  by (cases v) (auto simp: call_set_def call_setIn_def on_object_def)

lemma call_setIn_tree:
  assumes "wf_props kvs" "config_path p" "config_value w"
  shows "call_setIn (JObj kvs) p w = Inr (JObj (set_at kvs p w))"
  using assms
  by (simp add: call_setIn_def on_object_def im_simps config_value_def [of w])

lemma remove_in_tree:
  assumes "wf_props kvs" "config_path p" "lookup_in (JObj kvs) p = Some (JObj sub)"
  shows "remove_in (JObj kvs) p k =
           Inr (JObj (set_at kvs p (JObj (filter (\<lambda>kv. fst kv \<noteq> k) sub))))"
proof -
  have "wf_tree (JObj kvs)" using assms(1) by simp
  then have sub: "wf_props sub" and path: "get_path (JObj kvs) p = JObj sub"
    using assms(2,3) wf_tree_lookup_in [of "JObj kvs" p "JObj sub"]
    by (auto simp: get_path_loop_wf get_path_def config_path_def)
  then have "wf_tree (JObj (filter (\<lambda>kv. fst kv \<noteq> k) sub))"
    by (simp add: wf_props_filter)
  then show ?thesis
    using assms(1,2) sub path
    by (simp add: remove_in_def call_updateIn_def on_object_def im_updateIn_def call_without_def
        im_simps)
qed

lemma lookup_in_append:
  "lookup_in v (p @ q) = (case lookup_in v p of None \<Rightarrow> None | Some w \<Rightarrow> lookup_in w q)"
  by (induction v p rule: lookup_in.induct) (auto split: option.split)

lemma lookup_in_set_at_below:
  "config_path p \<Longrightarrow> lookup_in (JObj (set_at kvs p v)) (p @ q) = lookup_in v q"
  by (simp add: lookup_in_append im_simps)

lemma diverge_append: "diverge p q \<Longrightarrow> diverge (p @ xs) (q @ ys)"
  by (induction p q rule: diverge.induct) auto

lemma diverge_split:
  "diverge (p @ [k]) q \<Longrightarrow> diverge p q \<or> (\<exists>k' ks. q = p @ k' # ks \<and> k' \<noteq> k)"
proof (induction p arbitrary: q)
  case Nil
  then show ?case by (cases q) auto
next
  case (Cons a p)
  then show ?case by (cases q) auto
qed

lemma lookup_in_Cons2:
  assumes "lookup_in (JObj kvs) (k # k2 # ks) = Some v"
  shows "\<exists>sub. map_of kvs k = Some (JObj sub) \<and> lookup_in (JObj sub) (k2 # ks) = Some v"
proof -
  obtain u where u: "map_of kvs k = Some u" "lookup_in u (k2 # ks) = Some v"
    using assms by (auto split: option.splits)
  then show ?thesis by (cases u) auto
qed

text \<open>Writing below an existing object, writing twice, and writing back what is there.\<close>

lemma put_prop_twice: "put_prop (put_prop kvs k v) k w = put_prop kvs k w"
  unfolding put_prop_def by (induction kvs) auto

lemma set_at_twice:
  "config_path p \<Longrightarrow> set_at (set_at kvs p v) p w = set_at kvs p w"
  by (induction kvs p v rule: set_at.induct)
     (auto simp: put_prop_twice js_simps config_path_def safe_key_def)

lemma set_at_same:
  "lookup_in (JObj kvs) p = Some v \<Longrightarrow> set_at kvs p v = kvs"
proof (induction kvs p v rule: set_at.induct)
  case (3 kvs k k2 ks v)
  then obtain sub where "map_of kvs k = Some (JObj sub)" "lookup_in (JObj sub) (k2 # ks) = Some v"
    using lookup_in_Cons2 by blast
  then show ?case using 3 by (simp add: put_prop_same)
qed (auto simp: put_prop_same split: option.splits)

lemma set_at_append:
  "p \<noteq> [] \<Longrightarrow> q \<noteq> [] \<Longrightarrow> lookup_in (JObj kvs) p = Some (JObj sub) \<Longrightarrow>
   set_at kvs (p @ q) v = set_at kvs p (JObj (set_at sub q v))"
proof (induction kvs p v rule: set_at.induct)
  case (2 kvs k v)
  then obtain k2 ks where "q = k2 # ks" by (cases q) auto
  then show ?case using 2 by (auto split: option.splits)
next
  case (3 kvs k k2 ks v)
  then obtain u where "map_of kvs k = Some (JObj u)" "lookup_in (JObj u) (k2 # ks) = Some (JObj sub)"
    using lookup_in_Cons2 by blast
  then show ?case using 3 by simp
qed simp

section \<open>The contract\<close>

locale path_store =
  fixes valid :: "'t \<Rightarrow> bool"
    and okv :: "'v \<Rightarrow> bool"
    and okp :: "'k list \<Rightarrow> bool"
    and container :: "'v \<Rightarrow> bool"
    and fetch :: "'t \<Rightarrow> 'k list \<Rightarrow> 'v option"
    and store :: "'t \<Rightarrow> 'k list \<Rightarrow> 'v \<Rightarrow> 't result"
    and remove :: "'t \<Rightarrow> 'k list \<Rightarrow> 'k \<Rightarrow> 't result"
  assumes store_total:
      "valid t \<Longrightarrow> okp p \<Longrightarrow> okv v \<Longrightarrow> \<exists>t'. store t p v = Inr t' \<and> valid t'"
    and fetch_store_same:
      "valid t \<Longrightarrow> okp p \<Longrightarrow> okv v \<Longrightarrow> store t p v = Inr t' \<Longrightarrow> fetch t' p = Some v"
    and fetch_store_other:
      "valid t \<Longrightarrow> okp p \<Longrightarrow> okv v \<Longrightarrow> store t p v = Inr t' \<Longrightarrow> diverge p q \<Longrightarrow>
       fetch t' q = fetch t q"
    and remove_total:
      "valid t \<Longrightarrow> okp p \<Longrightarrow> fetch t p = Some c \<Longrightarrow> container c \<Longrightarrow>
       \<exists>t'. remove t p k = Inr t' \<and> valid t'"
    and fetch_remove_same:
      "valid t \<Longrightarrow> okp p \<Longrightarrow> fetch t p = Some c \<Longrightarrow> container c \<Longrightarrow> remove t p k = Inr t' \<Longrightarrow>
       fetch t' (p @ [k]) = None"
    and fetch_remove_other:
      "valid t \<Longrightarrow> okp p \<Longrightarrow> fetch t p = Some c \<Longrightarrow> container c \<Longrightarrow> remove t p k = Inr t' \<Longrightarrow>
       diverge (p @ [k]) q \<Longrightarrow> fetch t' q = fetch t q"
begin

text \<open>A sequence of writes: what was written survives later writes elsewhere.\<close>

fun stores :: "'t \<Rightarrow> ('k list \<times> 'v) list \<Rightarrow> 't result" where
  "stores t [] = Inr t"
| "stores t ((p, v) # ws) = and_then (store t p v) (\<lambda>t'. stores t' ws)"

lemma stores_total:
  "valid t \<Longrightarrow> list_all (\<lambda>(p, v). okp p \<and> okv v) ws \<Longrightarrow> \<exists>t'. stores t ws = Inr t' \<and> valid t'"
proof (induction ws arbitrary: t)
  case (Cons w ws)
  obtain p v where w: "w = (p, v)" by (cases w)
  with Cons.prems store_total [of t p v] obtain t1 where "store t p v = Inr t1" "valid t1"
    by auto
  with Cons w show ?case by simp
qed simp

lemma stores_frame:
  "valid t \<Longrightarrow> list_all (\<lambda>(p, v). okp p \<and> okv v \<and> diverge p q) ws \<Longrightarrow> stores t ws = Inr t' \<Longrightarrow>
   fetch t' q = fetch t q"
proof (induction ws arbitrary: t)
  case (Cons w ws)
  obtain p v where w: "w = (p, v)" by (cases w)
  with Cons.prems store_total [of t p v] obtain t1
    where t1: "store t p v = Inr t1" "valid t1" by auto
  then have "fetch t1 q = fetch t q"
    using Cons.prems w fetch_store_other [of t p v t1 q] by auto
  moreover have "fetch t' q = fetch t1 q"
    using Cons w t1 by auto
  ultimately show ?case by simp
qed simp

lemma store_survives:
  assumes "valid t" "okp p" "okv v" "store t p v = Inr t1"
    and "list_all (\<lambda>(q, w). okp q \<and> okv w \<and> diverge q p) ws" "stores t1 ws = Inr t'"
  shows "fetch t' p = Some v"
proof -
  have "valid t1" using store_total [OF assms(1-3)] assms(4) by auto
  then have "fetch t' p = fetch t1 p" using stores_frame assms(5,6) by blast
  then show ?thesis using fetch_store_same [OF assms(1-4)] by simp
qed

end

definition is_container :: "jsval \<Rightarrow> bool" where
  "is_container v = is_obj v"

lemma config_tree_obj: "config_tree v \<longleftrightarrow> (\<exists>kvs. v = JObj kvs \<and> wf_props kvs)"
  by (cases v) (auto simp: config_tree_def)

lemma config_tree_call_setIn:
  assumes "config_tree t" "config_path p" "config_value v"
  shows "\<exists>t'. call_setIn t p v = Inr t' \<and> config_tree t'"
proof -
  obtain kvs where "t = JObj kvs" "wf_props kvs" using assms(1) by (auto simp: config_tree_obj)
  then show ?thesis
    using assms(2,3) wf_set_at [of kvs p v]
    by (auto simp: config_tree_obj call_setIn_tree config_path_def config_value_def)
qed

lemma config_tree_remove_in:
  assumes "config_tree t" "config_path p" "lookup_in t p = Some c" "is_container c"
  shows "\<exists>t'. remove_in t p k = Inr t' \<and> config_tree t'"
proof -
  obtain kvs sub where t: "t = JObj kvs" "wf_props kvs" and c: "c = JObj sub"
    using assms(1,4) by (cases c) (auto simp: config_tree_obj is_container_def)
  then have "wf_props sub"
    using assms(3) wf_tree_lookup_in [of t p c] by simp
  then have "wf_tree (JObj (filter (\<lambda>kv. fst kv \<noteq> k) sub))"
    by (simp add: wf_props_filter)
  then show ?thesis
    using t c assms(2,3) wf_set_at
    by (auto simp: config_tree_obj remove_in_tree config_path_def)
qed

interpretation config: path_store config_tree config_value config_path is_container
  lookup_in call_setIn remove_in
proof (unfold_locales, goal_cases)
  case (1 t p v)
  then show ?case by (rule config_tree_call_setIn)
next
  case (2 t p v t')
  then show ?case by (auto simp: config_tree_obj call_setIn_tree im_simps)
next
  case (3 t p v t' q)
  then show ?case by (auto simp: config_tree_obj call_setIn_tree im_simps)
next
  case (4 t p c k)
  then show ?case by (rule config_tree_remove_in)
next
  case (5 t p c k t')
  then show ?case
    by (cases c) (auto simp: config_tree_obj is_container_def remove_in_tree
        lookup_in_set_at_below map_of_filter_key [where P = "\<lambda>x. x \<noteq> k"])
next
  case (6 t p c k t' q)
  then obtain kvs sub where t: "t = JObj kvs" "wf_props kvs" and c: "c = JObj sub"
    by (cases c) (auto simp: config_tree_obj is_container_def)
  with 6 have t': "t' = JObj (set_at kvs p (JObj (filter (\<lambda>kv. fst kv \<noteq> k) sub)))"
    by (simp add: remove_in_tree)
  consider (away) "diverge p q" | (below) k' ks where "q = p @ k' # ks" "k' \<noteq> k"
    using diverge_split [OF 6(6)] by blast
  then show ?case
  proof cases
    case away
    then show ?thesis using t t' by (simp add: im_simps)
  next
    case below
    then show ?thesis
      using 6 t c t'
      by (simp add: lookup_in_append im_simps
          map_of_filter_key [where P = "\<lambda>x. x \<noteq> k"])
  qed
qed

end
