(* ===== verification/Namespaces_Reducer.thy ===== *)
theory Namespaces_Reducer
  imports Seamless_Immutable History_Reducer
begin

text \<open>
  The reducers of \<^verbatim>\<open>src/admin/public/src/reducers/namespaces.jsx\<close>: \<open>namespaces\<close>, which edits the
  configuration tree and describes each edit for the history, and \<open>selectedNamespace\<close>.

  The inner reducer returns the new object together with the action, because \<open>updateBucket\<close> and
  \<open>removeBucket\<close> overwrite \<open>action.bucket\<close>. The tree is read and written through the operations of
  \<open>Seamless_Immutable\<close>; the lemmas rest on the interpretation \<open>config\<close> of their contract. The
  history is instantiated at the end (\<open>ns_history\<close>).
\<close>

section \<open>The reducer\<close>

definition BUCKET_KEY_MAP :: props where
  "BUCKET_KEY_MAP =
     [(''___DEFAULT_BUCKET___'', JStr ''default_bucket''),
      (''___DYNAMIC_BUCKET_TPL___'', JStr ''dynamic_bucket_template'')]"

text \<open>\<open>BUCKET_KEY_MAP[action.bucket]\<close>, a read that also finds inherited members.\<close>

definition bucketKey_of :: "jsval \<Rightarrow> jsval" where
  "bucketKey_of bucket = prop_of (JObj BUCKET_KEY_MAP) (to_str bucket)"

definition edited :: "present \<Rightarrow> change \<Rightarrow> jsval \<Rightarrow> ns_result" where
  "edited state c new_items =
     \<lparr> r_present = state\<lparr> items := new_items \<rparr>, r_change = Some c, r_history = None \<rparr>"

definition addNamespace :: "present \<Rightarrow> string \<Rightarrow> ns_result result" where
  "addNamespace state namespace =
     and_then (call_set (items state) namespace
                (JObj [(''buckets'', JObj []), (''name'', JStr namespace)]))
       (\<lambda>t. Inr (edited state
              \<lparr> c_type = ''ADD_NAMESPACE'', c_key = namespace, c_value = JUndef \<rparr> t))"

definition updateNamespace :: "present \<Rightarrow> string \<Rightarrow> string \<Rightarrow> jsval \<Rightarrow> ns_result result" where
  "updateNamespace state namespace key value =
     and_then (call_setIn (items state) [namespace, key] value)
       (\<lambda>t. Inr (edited state
              \<lparr> c_type = ''UPDATE_NAMESPACE'', c_key = namespace @ ''.'' @ key,
                c_value = value \<rparr> t))"

definition removeNamespace :: "present \<Rightarrow> string \<Rightarrow> ns_result result" where
  "removeNamespace state namespace =
     and_then (call_without (items state) (JStr namespace))
       (\<lambda>t. Inr (edited state
              \<lparr> c_type = ''REMOVE_NAMESPACE'', c_key = namespace, c_value = JUndef \<rparr> t))"

definition addBucket :: "present \<Rightarrow> string \<Rightarrow> jsval \<Rightarrow> ns_result result" where
  "addBucket state namespace bucket =
     (let bucketKey = bucketKey_of bucket;
          bucketPath = (if truthy bucketKey then [to_str bucketKey]
                        else [''buckets'', to_str bucket])
      in and_then (call_setIn (items state) (namespace # bucketPath)
                    (JObj [(''name'', bucket), (''namespace'', JStr namespace)]))
           (\<lambda>t. Inr (edited state
                  \<lparr> c_type = ''ADD_BUCKET'',
                    c_key = namespace @ ''.'' @ to_str (js_or bucketKey bucket),
                    c_value = JUndef \<rparr> t)))"

definition updateBucket ::
  "present \<Rightarrow> string \<Rightarrow> jsval \<Rightarrow> string \<Rightarrow> jsval \<Rightarrow> (ns_result \<times> action) result" where
  "updateBucket state namespace bucket key value =
     (let bucketKey = bucketKey_of bucket;
          bucket' = (if truthy bucketKey then bucketKey else bucket);
          bucketPath = (if truthy bucketKey then [to_str bucketKey]
                        else [''buckets'', to_str bucket])
      in and_then (call_setIn (items state) (namespace # bucketPath @ [key]) value)
           (\<lambda>t. Inr (edited state
                  \<lparr> c_type = ''UPDATE_BUCKET'',
                    c_key = namespace @ ''.'' @ to_str bucket' @ ''.'' @ key,
                    c_value = value \<rparr> t,
                UPDATE_BUCKET namespace bucket' key value)))"

definition removeBucket :: "present \<Rightarrow> string \<Rightarrow> jsval \<Rightarrow> (ns_result \<times> action) result" where
  "removeBucket state namespace bucket =
     (let bucketKey = bucketKey_of bucket;
          bucket' = (if truthy bucketKey then bucketKey else bucket);
          bucketPath = (if truthy bucketKey then [] else [''buckets''])
      in and_then (call_updateIn (items state) (namespace # bucketPath)
                    (\<lambda>buckets. call_without buckets bucket'))
           (\<lambda>t. Inr (edited state
                  \<lparr> c_type = ''REMOVE_BUCKET'', c_key = namespace @ ''.'' @ to_str bucket',
                    c_value = JUndef \<rparr> t,
                REMOVE_BUCKET namespace bucket')))"

definition loadConfig :: "jsval \<Rightarrow> ns_result result" where
  "loadConfig config =
     and_then (get_prop config ''version'') (\<lambda>ver.
     and_then (get_prop config ''namespaces'') (\<lambda>nss.
     and_then (immutable_from (js_or nss (JObj []))) (\<lambda>t.
       Inr \<lparr> r_present = \<lparr> items = t, version = js_or ver (JNum 0) \<rparr>,
             r_change = None, r_history = Some no_history \<rparr>)))"

text \<open>The comparison \<open>v > 0\<close>.\<close>

fun js_gt0 :: "jsval \<Rightarrow> bool result" where
  "js_gt0 (JNum n) = Inr (n > 0)"
| "js_gt0 (JBool b) = Inr b"
| "js_gt0 JUndef = Inr False"
| "js_gt0 JNull = Inr False"
| "js_gt0 _ = Inl (OutsideModel ''comparison of a non-number with 0'')"

text \<open>\<open>configs = action.payload.configs\<close> and the test \<open>configs.length > 0\<close>.\<close>

definition payload_configs :: "jsval \<Rightarrow> (jsval \<times> bool) result" where
  "payload_configs payload =
     and_then (get_prop payload ''configs'') (\<lambda>configs.
     and_then (get_prop configs ''length'') (\<lambda>len.
     and_then (js_gt0 len) (\<lambda>nonempty. Inr (configs, nonempty))))"

definition unchanged :: "present \<Rightarrow> ns_result" where
  "unchanged state = \<lparr> r_present = state, r_change = None, r_history = None \<rparr>"

fun namespaces :: "present \<Rightarrow> action \<Rightarrow> (ns_result \<times> action) result" where
  "namespaces state (ADD_NAMESPACE n) =
     and_then (addNamespace state n) (\<lambda>r. Inr (r, ADD_NAMESPACE n))"
| "namespaces state (UPDATE_NAMESPACE n k v) =
     and_then (updateNamespace state n k v) (\<lambda>r. Inr (r, UPDATE_NAMESPACE n k v))"
| "namespaces state (REMOVE_NAMESPACE n) =
     and_then (removeNamespace state n) (\<lambda>r. Inr (r, REMOVE_NAMESPACE n))"
| "namespaces state (ADD_BUCKET n b) =
     and_then (addBucket state n b) (\<lambda>r. Inr (r, ADD_BUCKET n b))"
| "namespaces state (UPDATE_BUCKET n b k v) = updateBucket state n b k v"
| "namespaces state (REMOVE_BUCKET n b) = removeBucket state n b"
| "namespaces state (CONFIGS_FETCH_SUCCESS err payload) =
     and_then (payload_configs payload) (\<lambda>(configs, nonempty).
       if nonempty
       then and_then (get_prop configs ''0'') (\<lambda>c.
            and_then (loadConfig c) (\<lambda>r. Inr (r, CONFIGS_FETCH_SUCCESS err payload)))
       else Inr (unchanged state, CONFIGS_FETCH_SUCCESS err payload))"
| "namespaces state (LOAD_CONFIG config) =
     and_then (loadConfig config) (\<lambda>r. Inr (r, LOAD_CONFIG config))"
| "namespaces state a = Inr (unchanged state, a)"

section \<open>The selected namespace\<close>

record selection =
  sel_namespace :: string
  canMakeChanges :: bool

text \<open>
  The state is \<open>null\<close> or an object; \<open>ADD_NAMESPACE\<close> has no \<open>canMakeChanges\<close> field, which the
  reducer reads as permission.
\<close>

definition select :: "string option \<Rightarrow> bool \<Rightarrow> selection option" where
  "select namespace can =
     (case namespace of
        None \<Rightarrow> None
      | Some n \<Rightarrow> if n = [] then None else Some \<lparr> sel_namespace = n, canMakeChanges = can \<rparr>)"

fun selectedNamespace :: "selection option \<Rightarrow> action \<Rightarrow> selection option" where
  "selectedNamespace state (ADD_NAMESPACE n) = select (Some n) True"
| "selectedNamespace state (SELECT_NAMESPACE n can) = select n can"
| "selectedNamespace state (REMOVE_NAMESPACE n) = None"
| "selectedNamespace state _ = state"

section \<open>Names and paths\<close>

text \<open>Where a bucket is kept: two names go to fields of the namespace itself.\<close>

definition special_key :: "string \<Rightarrow> string option" where
  "special_key b =
     (if b = ''___DEFAULT_BUCKET___'' then Some ''default_bucket''
      else if b = ''___DYNAMIC_BUCKET_TPL___'' then Some ''dynamic_bucket_template''
      else None)"

definition bucket_path :: "string \<Rightarrow> string \<Rightarrow> string list" where
  "bucket_path n b = (case special_key b of Some k \<Rightarrow> [n, k] | None \<Rightarrow> [n, ''buckets'', b])"

text \<open>Names that collide neither with the library's nor with inherited ones.\<close>

definition plain_name :: "string \<Rightarrow> bool" where
  "plain_name b \<longleftrightarrow> safe_key b \<and> b \<notin> set object_prototype"

fun plain_bucket :: "jsval \<Rightarrow> bool" where
  "plain_bucket (JStr b) = plain_name b"
| "plain_bucket _ = False"

text \<open>Edits whose names and values are unproblematic.\<close>

fun safe_edit :: "action \<Rightarrow> bool" where
  "safe_edit (ADD_NAMESPACE n) = plain_name n"
| "safe_edit (UPDATE_NAMESPACE n k v) = (plain_name n \<and> plain_name k \<and> config_value v)"
| "safe_edit (REMOVE_NAMESPACE n) = plain_name n"
| "safe_edit (ADD_BUCKET n b) = (plain_name n \<and> plain_bucket b)"
| "safe_edit (UPDATE_BUCKET n b k v) =
     (plain_name n \<and> plain_bucket b \<and> plain_name k \<and> config_value v)"
| "safe_edit (REMOVE_BUCKET n b) = (plain_name n \<and> plain_bucket b)"
| "safe_edit _ = False"

text \<open>Actions that replace the whole tree.\<close>

fun loads_config :: "action \<Rightarrow> bool" where
  "loads_config (LOAD_CONFIG _) = True"
| "loads_config (CONFIGS_FETCH_SUCCESS _ _) = True"
| "loads_config _ = False"

section \<open>Lemmas on names and paths\<close>

lemma plain_name_safe [simp]: "plain_name b \<Longrightarrow> safe_key b"
  by (simp add: plain_name_def)

lemma plain_names [simp]:
  "plain_name ''buckets''" "plain_name ''name''" "plain_name ''namespace''"
  "plain_name ''default_bucket''" "plain_name ''dynamic_bucket_template''"
  by (simp_all add: plain_name_def safe_key_def immutable_names_def object_prototype_def)

lemma inherited_plain: "plain_name b \<Longrightarrow> inherited b = JUndef"
  by (auto simp: inherited_def plain_name_def safe_key_def object_prototype_def)

lemma bucketKey_of_plain:
  "plain_name b \<Longrightarrow>
   bucketKey_of (JStr b) = (case special_key b of Some k \<Rightarrow> JStr k | None \<Rightarrow> JUndef)"
  by (auto simp: bucketKey_of_def BUCKET_KEY_MAP_def special_key_def inherited_plain)

lemma special_key_Some: "special_key b = Some k \<Longrightarrow> k \<noteq> [] \<and> plain_name k"
  by (auto simp: special_key_def split: if_splits)

lemma config_path_bucket [simp]:
  "plain_name n \<Longrightarrow> plain_name b \<Longrightarrow> config_path (bucket_path n b)"
  by (auto simp: bucket_path_def config_path_def dest: special_key_Some split: option.split)

lemma config_path_bucket_field [simp]:
  "plain_name n \<Longrightarrow> plain_name b \<Longrightarrow> plain_name k \<Longrightarrow> config_path (bucket_path n b @ [k])"
  by (auto simp: bucket_path_def config_path_def dest: special_key_Some split: option.split)

text \<open>Different buckets are kept in different places.\<close>

lemma bucket_path_diverge:
  "(n, b) \<noteq> (n', b') \<Longrightarrow> diverge (bucket_path n b) (bucket_path n' b')"
  by (auto simp: bucket_path_def special_key_def split: option.split if_splits)

lemma config_value_prim [simp]:
  "config_value (JNum i)" "config_value JNull" "config_value (JStr s)" "config_value (JBool c)"
  by (simp_all add: config_value_def)

lemma fresh_namespace_value [simp]:
  "config_value (JObj [(''buckets'', JObj []), (''name'', JStr n)])"
  by (simp add: config_value_def safe_key_def immutable_names_def)

lemma fresh_bucket_value [simp]:
  "config_value (JObj [(''name'', JStr b), (''namespace'', JStr n)])"
  by (simp add: config_value_def safe_key_def immutable_names_def)

section \<open>Each edit as one operation on the tree\<close>

lemma addNamespace_eq:
  assumes "is_obj (items p)"
  shows "addNamespace p n =
     and_then (call_setIn (items p) [n] (JObj [(''buckets'', JObj []), (''name'', JStr n)]))
       (\<lambda>t. Inr (edited p \<lparr> c_type = ''ADD_NAMESPACE'', c_key = n, c_value = JUndef \<rparr> t))"
  using assms by (simp add: addNamespace_def call_set_setIn)

lemma removeNamespace_eq:
  assumes "items p = JObj kvs" "wf_props kvs"
  shows "removeNamespace p n =
     Inr (edited p \<lparr> c_type = ''REMOVE_NAMESPACE'', c_key = n, c_value = JUndef \<rparr>
            (JObj (filter (\<lambda>kv. fst kv \<noteq> n) kvs)))"
  using assms by (simp add: removeNamespace_def call_without_def on_object_def im_simps)

lemma addBucket_eq:
  assumes "plain_name b"
  shows "addBucket p n (JStr b) =
     and_then (call_setIn (items p) (bucket_path n b)
                (JObj [(''name'', JStr b), (''namespace'', JStr n)]))
       (\<lambda>t. Inr (edited p
              \<lparr> c_type = ''ADD_BUCKET'',
                c_key = n @ ''.'' @ (case special_key b of Some k \<Rightarrow> k | None \<Rightarrow> b),
                c_value = JUndef \<rparr> t))"
  using assms special_key_Some [of b]
  by (auto simp: addBucket_def Let_def bucketKey_of_plain bucket_path_def split: option.split)

lemma updateBucket_eq:
  assumes "plain_name b"
  shows "updateBucket p n (JStr b) k v =
     (let b' = (case special_key b of Some s \<Rightarrow> s | None \<Rightarrow> b) in
      and_then (call_setIn (items p) (bucket_path n b @ [k]) v)
       (\<lambda>t. Inr (edited p
              \<lparr> c_type = ''UPDATE_BUCKET'', c_key = n @ ''.'' @ b' @ ''.'' @ k, c_value = v \<rparr> t,
            UPDATE_BUCKET n (JStr b') k v)))"
  using assms special_key_Some [of b]
  by (auto simp: updateBucket_def Let_def bucketKey_of_plain bucket_path_def split: option.split)

text \<open>The object that holds a bucket, and the bucket's name in it.\<close>

definition bucket_parent :: "string \<Rightarrow> string \<Rightarrow> string list" where
  "bucket_parent n b = (if special_key b = None then [n, ''buckets''] else [n])"

definition bucket_name :: "string \<Rightarrow> string" where
  "bucket_name b = (case special_key b of Some s \<Rightarrow> s | None \<Rightarrow> b)"

lemma bucket_path_parent: "bucket_path n b = bucket_parent n b @ [bucket_name b]"
  by (auto simp: bucket_path_def bucket_parent_def bucket_name_def split: option.split)

lemma config_path_parent [simp]: "plain_name n \<Longrightarrow> config_path (bucket_parent n b)"
  by (simp add: bucket_parent_def config_path_def)

lemma removeBucket_eq:
  assumes "plain_name b"
  shows "removeBucket p n (JStr b) =
     and_then (remove_in (items p) (bucket_parent n b) (bucket_name b))
       (\<lambda>t. Inr (edited p
              \<lparr> c_type = ''REMOVE_BUCKET'', c_key = n @ ''.'' @ bucket_name b,
                c_value = JUndef \<rparr> t,
            REMOVE_BUCKET n (JStr (bucket_name b))))"
  using assms special_key_Some [of b]
  by (auto simp: removeBucket_def Let_def bucketKey_of_plain bucket_parent_def bucket_name_def
      remove_in_def split: option.split)

lemma items_edited [simp]: "items (r_present (edited p c t)) = t"
  by (simp add: edited_def)

lemma edited_inject [simp]: "edited p c t = edited p c' t' \<longleftrightarrow> c = c' \<and> t = t'"
proof
  assume eq: "edited p c t = edited p c' t'"
  then have "items (r_present (edited p c t)) = items (r_present (edited p c' t'))" by simp
  then have "t = t'" by simp
  moreover have "r_change (edited p c t) = r_change (edited p c' t')" using eq by simp
  then have "c = c'" by (simp add: edited_def)
  ultimately show "c = c' \<and> t = t'" by simp
qed simp

lemma version_edited [simp]: "version (r_present (edited p c t)) = version p"
  by (simp add: edited_def)

section \<open>Every edit keeps the tree well formed\<close>

lemma wf_props_items: "config_tree t \<Longrightarrow> \<exists>kvs. t = JObj kvs \<and> wf_props kvs"
  by (simp add: config_tree_obj)

lemma config_tree_is_obj: "config_tree t \<Longrightarrow> is_obj t"
  by (simp add: config_tree_def)

lemma config_path_names [simp]:
  "config_path [k] = safe_key k" "config_path [k, k2] = (safe_key k \<and> safe_key k2)"
  by (simp_all add: config_path_def)

text \<open>A path of plain names that leads to an object leads there through own properties.\<close>

lemma wf_inherited: "wf_tree (inherited k)"
  by (simp add: inherited_def)

lemma wf_im_prop: "wf_tree v \<Longrightarrow> wf_tree (im_prop v k)"
  by (cases v) (auto simp: im_prop_def wf_inherited dest: wf_props_map_of split: option.split)

lemma im_prop_JObj:
  assumes "wf_tree v" "plain_name k" "im_prop v k = JObj sub"
  shows "\<exists>kvs. v = JObj kvs \<and> map_of kvs k = Some (JObj sub)"
  using assms by (cases v) (auto simp: im_prop_def inherited_plain split: if_splits option.splits)

lemma get_path_loop_JObj:
  assumes "wf_tree v" "list_all plain_name p" "get_path_loop v p = JObj sub"
  shows "lookup_in v p = Some (JObj sub)"
  using assms
proof (induction p arbitrary: v)
  case (Cons k ks)
  then have *: "lookup_in (im_prop v k) ks = Some (JObj sub)"
    by (auto simp: wf_im_prop split: if_splits)
  then obtain u where u: "im_prop v k = JObj u" by (cases ks; cases "im_prop v k") auto
  have "plain_name k" using Cons.prems(2) by simp
  then obtain kvs where "v = JObj kvs" "map_of kvs k = Some (JObj u)"
    using im_prop_JObj [OF Cons.prems(1) _ u] by blast
  then show ?case using * u by simp
qed simp

lemma remove_in_success:
  assumes "config_tree t" "list_all plain_name q" "q \<noteq> []" "remove_in t q k = Inr t'"
  shows "\<exists>sub. lookup_in t q = Some (JObj sub)"
proof -
  obtain kvs where t: "t = JObj kvs" using assms(1) by (auto simp: config_tree_obj)
  then obtain w where "call_without (get_path t q) (JStr k) = Inr w"
    using assms(4)
    by (auto simp: remove_in_def call_updateIn_def on_object_def im_updateIn_def js_simps)
  then obtain sub where "get_path t q = JObj sub"
    by (auto simp: call_without_def on_object_def split: jsval.splits)
  then show ?thesis
    using assms get_path_loop_JObj [of t q sub] by (auto simp: get_path_def config_tree_def)
qed

lemma plain_parent [simp]: "plain_name n \<Longrightarrow> list_all plain_name (bucket_parent n b)"
  by (simp add: bucket_parent_def)

lemma bucket_parent_ne [simp]: "bucket_parent n b \<noteq> []"
  by (simp add: bucket_parent_def)

lemma plain_bucketE: "plain_bucket b \<Longrightarrow> (\<And>s. b = JStr s \<Longrightarrow> plain_name s \<Longrightarrow> P) \<Longrightarrow> P"
  by (cases b) auto

section \<open>What each edit does to the tree\<close>

text \<open>
  The new tree has exactly the given value at a path (or nothing, after a removal), is well
  formed, and agrees with the old tree at every path that parts from that one.
\<close>

definition writes_at :: "jsval \<Rightarrow> string list \<Rightarrow> jsval option \<Rightarrow> jsval \<Rightarrow> bool" where
  "writes_at t q v t' \<longleftrightarrow>
     config_tree t' \<and> lookup_in t' q = v \<and> (\<forall>x. diverge q x \<longrightarrow> lookup_in t' x = lookup_in t x)"

lemma call_setIn_writes:
  assumes "config_tree t" "config_path q" "config_value v"
  shows "\<exists>t'. call_setIn t q v = Inr t' \<and> writes_at t q (Some v) t'"
proof -
  obtain t' where t': "call_setIn t q v = Inr t'" "config_tree t'"
    using config.store_total [OF assms] by blast
  then show ?thesis
    using config.fetch_store_same [OF assms t'(1)] config.fetch_store_other [OF assms t'(1)]
    by (auto simp: writes_at_def)
qed

lemma remove_in_writes:
  assumes "config_tree t" "config_path q" "lookup_in t q = Some (JObj sub)"
  shows "\<exists>t'. remove_in t q k = Inr t' \<and> writes_at t (q @ [k]) None t'"
proof -
  have c: "is_container (JObj sub)" by (simp add: is_container_def)
  obtain t' where t': "remove_in t q k = Inr t'" "config_tree t'"
    using config.remove_total [OF assms c] by blast
  then show ?thesis
    using config.fetch_remove_same [OF assms c t'(1)] config.fetch_remove_other [OF assms c t'(1)]
    by (auto simp: writes_at_def)
qed

lemma addNamespace_spec:
  assumes "config_tree (items p)" "plain_name n"
  shows "\<exists>t. addNamespace p n =
               Inr (edited p \<lparr> c_type = ''ADD_NAMESPACE'', c_key = n, c_value = JUndef \<rparr> t) \<and>
             writes_at (items p) [n] (Some (JObj [(''buckets'', JObj []), (''name'', JStr n)])) t"
  using call_setIn_writes [OF assms(1) _ fresh_namespace_value, of "[n]" n] assms
  by (auto simp: addNamespace_eq config_tree_is_obj)

lemma updateNamespace_spec:
  assumes "config_tree (items p)" "plain_name n" "plain_name k" "config_value v"
  shows "\<exists>t. updateNamespace p n k v =
               Inr (edited p \<lparr> c_type = ''UPDATE_NAMESPACE'', c_key = n @ ''.'' @ k,
                               c_value = v \<rparr> t) \<and>
             writes_at (items p) [n, k] (Some v) t"
  using call_setIn_writes [OF assms(1), of "[n, k]" v] assms by (auto simp: updateNamespace_def)

lemma removeNamespace_spec:
  assumes "config_tree (items p)"
  shows "\<exists>t. removeNamespace p n =
               Inr (edited p \<lparr> c_type = ''REMOVE_NAMESPACE'', c_key = n, c_value = JUndef \<rparr> t) \<and>
             writes_at (items p) [n] None t"
proof -
  obtain kvs where kvs: "items p = JObj kvs" "wf_props kvs" using assms wf_props_items by blast
  have "lookup_in (JObj (filter (\<lambda>kv. fst kv \<noteq> n) kvs)) x = lookup_in (JObj kvs) x"
    if "diverge [n] x" for x
    using that by (cases x) (auto simp: map_of_filter_key [where P = "\<lambda>x. x \<noteq> n"])
  then show ?thesis
    using kvs by (auto simp: removeNamespace_eq writes_at_def config_tree_obj wf_props_filter
        map_of_filter_key [where P = "\<lambda>x. x \<noteq> n"])
qed

lemma addBucket_spec:
  assumes "config_tree (items p)" "plain_name n" "plain_name b"
  shows "\<exists>t. addBucket p n (JStr b) =
               Inr (edited p \<lparr> c_type = ''ADD_BUCKET'', c_key = n @ ''.'' @ bucket_name b,
                               c_value = JUndef \<rparr> t) \<and>
             writes_at (items p) (bucket_path n b)
               (Some (JObj [(''name'', JStr b), (''namespace'', JStr n)])) t"
  using call_setIn_writes [OF assms(1) config_path_bucket [OF assms(2,3)] fresh_bucket_value, of b n]
  by (auto simp: addBucket_eq [OF assms(3)] bucket_name_def)

lemma updateBucket_spec:
  assumes "config_tree (items p)" "plain_name n" "plain_name b" "plain_name k" "config_value v"
  shows "\<exists>t. updateBucket p n (JStr b) k v =
               Inr (edited p \<lparr> c_type = ''UPDATE_BUCKET'',
                               c_key = n @ ''.'' @ bucket_name b @ ''.'' @ k, c_value = v \<rparr> t,
                    UPDATE_BUCKET n (JStr (bucket_name b)) k v) \<and>
             writes_at (items p) (bucket_path n b @ [k]) (Some v) t"
  using call_setIn_writes [OF assms(1) config_path_bucket_field assms(5), OF assms(2-4)]
  by (auto simp: updateBucket_eq [OF assms(3)] bucket_name_def Let_def)

lemma removeBucket_spec:
  assumes "config_tree (items p)" "plain_name n" "plain_name b"
    and "lookup_in (items p) (bucket_parent n b) = Some (JObj sub)"
  shows "\<exists>t. removeBucket p n (JStr b) =
               Inr (edited p \<lparr> c_type = ''REMOVE_BUCKET'', c_key = n @ ''.'' @ bucket_name b,
                               c_value = JUndef \<rparr> t,
                    REMOVE_BUCKET n (JStr (bucket_name b))) \<and>
             writes_at (items p) (bucket_path n b) None t"
  using remove_in_writes [OF assms(1) config_path_parent [OF assms(2)] assms(4), of "bucket_name b"]
  by (auto simp: removeBucket_eq [OF assms(3)] bucket_path_parent)

lemma removeBucket_success:
  assumes "config_tree (items p)" "plain_name n" "plain_name b"
    and "removeBucket p n (JStr b) = Inr (r, a)"
  shows "\<exists>sub. lookup_in (items p) (bucket_parent n b) = Some (JObj sub)"
  using assms(4) remove_in_success [OF assms(1) plain_parent [OF assms(2)] bucket_parent_ne]
  by (auto simp: removeBucket_eq [OF assms(3)] js_simps)

lemma namespaces_keeps_tree:
  assumes "config_tree (items p)" "safe_edit a" "namespaces p a = Inr (r, a')"
  shows "config_tree (items (r_present r))"
proof (cases a)
  case (ADD_NAMESPACE n)
  then show ?thesis
    using assms addNamespace_spec [of p n] by (auto simp: writes_at_def)
next
  case (UPDATE_NAMESPACE n k v)
  then show ?thesis
    using assms updateNamespace_spec [of p n k v] by (auto simp: writes_at_def)
next
  case (REMOVE_NAMESPACE n)
  then show ?thesis
    using assms removeNamespace_spec [of p n] by (auto simp: writes_at_def)
next
  case (ADD_BUCKET n b)
  then obtain s where "b = JStr s" "plain_name s" using assms(2) by (auto elim: plain_bucketE)
  then show ?thesis
    using assms ADD_BUCKET addBucket_spec [of p n s] by (auto simp: writes_at_def)
next
  case (UPDATE_BUCKET n b k v)
  then obtain s where "b = JStr s" "plain_name s" using assms(2) by (auto elim: plain_bucketE)
  then show ?thesis
    using assms UPDATE_BUCKET updateBucket_spec [of p n s k v] by (auto simp: writes_at_def)
next
  case (REMOVE_BUCKET n b)
  then obtain s where s: "b = JStr s" "plain_name s" using assms(2) by (auto elim: plain_bucketE)
  then obtain sub where "lookup_in (items p) (bucket_parent n s) = Some (JObj sub)"
    using assms REMOVE_BUCKET removeBucket_success [of p n s r a'] by auto
  then show ?thesis
    using s assms REMOVE_BUCKET removeBucket_spec [of p n s sub] by (auto simp: writes_at_def)
qed (use assms in auto)

section \<open>The history of the namespaces\<close>

lemma edit_result:
  "edit_action a \<Longrightarrow> namespaces p a = Inr (r, a') \<Longrightarrow>
   r_change r \<noteq> None \<and> r_history r = None \<and> edit_action a'"
  by (cases a)
     (auto simp: js_simps addNamespace_def updateNamespace_def removeNamespace_def addBucket_def
       updateBucket_def removeBucket_def Let_def edited_def)

lemma loadConfig_history: "loadConfig c = Inr r \<Longrightarrow> r_history r = Some no_history"
  by (auto simp: loadConfig_def js_simps)

lemma other_result:
  "\<not> edit_action a \<Longrightarrow> namespaces p a = Inr (r, a') \<Longrightarrow>
   a' = a \<and> (r_history r = None \<and> r_present r = p \<or> r_history r = Some no_history)"
  by (cases a) (auto simp: js_simps unchanged_def split: if_splits dest: loadConfig_history)

lemma load_result:
  "\<not> loads_config a \<Longrightarrow> namespaces p a = Inr (r, a') \<Longrightarrow> r_history r = None"
proof (cases "edit_action a")
  case False
  then show "\<not> loads_config a \<Longrightarrow> namespaces p a = Inr (r, a') \<Longrightarrow> r_history r = None"
    by (cases a) (auto simp: unchanged_def)
qed (simp add: edit_result)

interpretation ns_history: undoable namespaces loads_config
  by unfold_locales (auto dest: edit_result other_result load_result)

section \<open>What an edit is meant to do\<close>

text \<open>The path an edit is about, and what it is meant to leave there.\<close>

fun edit_target :: "action \<Rightarrow> string list \<times> jsval option" where
  "edit_target (ADD_NAMESPACE n) =
     ([n], Some (JObj [(''buckets'', JObj []), (''name'', JStr n)]))"
| "edit_target (UPDATE_NAMESPACE n k v) = ([n, k], Some v)"
| "edit_target (REMOVE_NAMESPACE n) = ([n], None)"
| "edit_target (ADD_BUCKET n (JStr b)) =
     (bucket_path n b, Some (JObj [(''name'', JStr b), (''namespace'', JStr n)]))"
| "edit_target (UPDATE_BUCKET n (JStr b) k v) = (bucket_path n b @ [k], Some v)"
| "edit_target (REMOVE_BUCKET n (JStr b)) = (bucket_path n b, None)"
| "edit_target _ = ([], None)"

text \<open>The edit removes a bucket from a place that is not an object.\<close>

fun removes_nowhere :: "jsval \<Rightarrow> action \<Rightarrow> bool" where
  "removes_nowhere t (REMOVE_BUCKET n (JStr b)) =
     (case lookup_in t (bucket_parent n b) of Some (JObj _) \<Rightarrow> False | _ \<Rightarrow> True)"
| "removes_nowhere t _ = False"

lemma removes_nowhere_obj:
  "\<not> removes_nowhere t (REMOVE_BUCKET n (JStr b)) \<longleftrightarrow>
   (\<exists>sub. lookup_in t (bucket_parent n b) = Some (JObj sub))"
  by (auto split: option.split jsval.split)

lemma safe_edit_result:
  assumes "config_tree (items p)" "safe_edit a" "\<not> removes_nowhere (items p) a"
  shows "\<exists>c t a'. namespaces p a = Inr (edited p c t, a') \<and> c_type c = action_type a \<and>
           writes_at (items p) (fst (edit_target a)) (snd (edit_target a)) t"
proof (cases a)
  case (ADD_NAMESPACE n)
  then show ?thesis using assms addNamespace_spec [of p n] by auto
next
  case (UPDATE_NAMESPACE n k v)
  then show ?thesis using assms updateNamespace_spec [of p n k v] by auto
next
  case (REMOVE_NAMESPACE n)
  then show ?thesis using assms removeNamespace_spec [of p n] by auto
next
  case (ADD_BUCKET n b)
  then obtain s where "b = JStr s" "plain_name s" using assms(2) by (auto elim: plain_bucketE)
  then show ?thesis using assms ADD_BUCKET addBucket_spec [of p n s] by auto
next
  case (UPDATE_BUCKET n b k v)
  then obtain s where "b = JStr s" "plain_name s" using assms(2) by (auto elim: plain_bucketE)
  then show ?thesis using assms UPDATE_BUCKET updateBucket_spec [of p n s k v] by auto
next
  case (REMOVE_BUCKET n b)
  then obtain s where s: "b = JStr s" "plain_name s" using assms(2) by (auto elim: plain_bucketE)
  then obtain sub where "lookup_in (items p) (bucket_parent n s) = Some (JObj sub)"
    using assms(3) REMOVE_BUCKET removes_nowhere_obj by blast
  then show ?thesis using s assms REMOVE_BUCKET removeBucket_spec [of p n s sub] by auto
qed (use assms in auto)

lemma removes_nowhere_throws:
  assumes "config_tree (items p)" "safe_edit a" "removes_nowhere (items p) a"
  shows "\<exists>m. namespaces p a = Inl (TypeError m)"
proof -
  obtain n b where a: "a = REMOVE_BUCKET n (JStr b)" "plain_name n" "plain_name b"
    using assms(2,3) by (cases a rule: safe_edit.cases) (auto elim!: plain_bucketE)
  obtain kvs where kvs: "items p = JObj kvs" "wf_props kvs" using assms(1) wf_props_items by blast
  let ?c = "get_path (items p) (bucket_parent n b)"
  have "\<not> is_obj ?c"
    using assms(3) a kvs get_path_loop_JObj [of "items p" "bucket_parent n b"]
    by (cases ?c) (auto simp: get_path_def split: option.splits jsval.splits)
  then obtain m where "call_without ?c (JStr (bucket_name b)) = Inl (TypeError m)"
    by (cases ?c) (auto simp: call_without_def on_object_def)
  then show ?thesis
    using a kvs by (auto simp: removeBucket_eq remove_in_def call_updateIn_def on_object_def
        im_updateIn_def)
qed

end
