(* ===== verification/Slice_Reducers.thy ===== *)
theory Slice_Reducers
  imports Namespaces_Reducer
begin

text \<open>
  The remaining reducers of \<^verbatim>\<open>src/admin/public/src/reducers\<close>: \<open>configs\<close> and \<open>currentVersion\<close>
  (\<^verbatim>\<open>configs.jsx\<close>), \<open>stats\<close> (\<^verbatim>\<open>stats.jsx\<close>), \<open>confirm\<close> (\<^verbatim>\<open>confirmation.jsx\<close>) and
  \<open>capabilities\<close> (\<^verbatim>\<open>capabilities.jsx\<close>).

  The state objects are records in which an absent field is \<open>JUndef\<close> (or \<open>None\<close> for a flag). Each
  reducer takes the state as an option: \<open>None\<close> is the \<open>undefined\<close> that selects the default. A
  reducer that returns \<open>undefined\<close> gives \<open>None\<close>.
\<close>

section \<open>configs.jsx\<close>

record configs_state =
  cf_inRequest :: "bool option"
  cf_error :: jsval
  cf_items :: jsval

definition INITIAL_CONFIGS :: configs_state where
  "INITIAL_CONFIGS = \<lparr> cf_inRequest = None, cf_error = JUndef, cf_items = JUndef \<rparr>"

definition handleConfigsFailure :: "configs_state \<Rightarrow> jsval \<Rightarrow> configs_state" where
  "handleConfigsFailure state payload =
     state\<lparr> cf_inRequest := Some False, cf_error := payload \<rparr>"

fun handleConfigsRequest :: "configs_state \<Rightarrow> action \<Rightarrow> configs_state option result" where
  "handleConfigsRequest state (CONFIGS_REQUEST err payload) =
     (if err then Inr (Some (handleConfigsFailure state payload))
      else Inr (Some (state\<lparr> cf_inRequest := Some True, cf_error := JNull \<rparr>)))"
| "handleConfigsRequest state (CONFIGS_FETCH_SUCCESS err payload) =
     (if err then Inr (Some (handleConfigsFailure state payload))
      else and_then (get_prop payload ''configs'')
             (\<lambda>c. Inr (Some (INITIAL_CONFIGS\<lparr> cf_items := c \<rparr>))))"
| "handleConfigsRequest state (CONFIGS_COMMIT_SUCCESS err payload) =
     (if err then Inr (Some (handleConfigsFailure state payload))
      else Inr (Some INITIAL_CONFIGS))"
| "handleConfigsRequest state _ = Inr None"

fun configs :: "configs_state option \<Rightarrow> action \<Rightarrow> configs_state option result" where
  "configs st (CONFIGS_FAILURE err payload) =
     Inr (Some (handleConfigsFailure (case st of None \<Rightarrow> INITIAL_CONFIGS | Some s \<Rightarrow> s) payload))"
| "configs st (CONFIGS_REQUEST err payload) =
     handleConfigsRequest (case st of None \<Rightarrow> INITIAL_CONFIGS | Some s \<Rightarrow> s)
       (CONFIGS_REQUEST err payload)"
| "configs st (CONFIGS_FETCH_SUCCESS err payload) =
     handleConfigsRequest (case st of None \<Rightarrow> INITIAL_CONFIGS | Some s \<Rightarrow> s)
       (CONFIGS_FETCH_SUCCESS err payload)"
| "configs st (CONFIGS_COMMIT_SUCCESS err payload) =
     handleConfigsRequest (case st of None \<Rightarrow> INITIAL_CONFIGS | Some s \<Rightarrow> s)
       (CONFIGS_COMMIT_SUCCESS err payload)"
| "configs st _ = Inr (Some (case st of None \<Rightarrow> INITIAL_CONFIGS | Some s \<Rightarrow> s))"

fun currentVersion :: "jsval option \<Rightarrow> action \<Rightarrow> jsval result" where
  "currentVersion st (CONFIGS_FETCH_SUCCESS err payload) =
     and_then (payload_configs payload) (\<lambda>(configs, nonempty).
       if nonempty
       then and_then (get_prop configs ''0'') (\<lambda>c.
            and_then (get_prop c ''version'') (\<lambda>ver. Inr (js_or ver (JNum 0))))
       else Inr (case st of None \<Rightarrow> JNum 0 | Some v \<Rightarrow> v))"
| "currentVersion st _ = Inr (case st of None \<Rightarrow> JNum 0 | Some v \<Rightarrow> v)"

section \<open>stats.jsx\<close>

record stats_state =
  st_show :: bool
  st_inRequest :: "bool option"
  st_error :: jsval
  st_items :: jsval

definition INITIAL_STATS :: stats_state where
  "INITIAL_STATS =
     \<lparr> st_show = False, st_inRequest = None, st_error = JUndef, st_items = JUndef \<rparr>"

text \<open>The last case is the \<open>switch\<close> that falls through: the function returns \<open>undefined\<close>.\<close>

fun handleStatsRequest :: "stats_state \<Rightarrow> action \<Rightarrow> stats_state option result" where
  "handleStatsRequest state (STATS_REQUEST err payload) =
     (if err then Inr (Some (state\<lparr> st_inRequest := Some False, st_error := payload \<rparr>))
      else Inr (Some (state\<lparr> st_inRequest := Some True, st_error := JNull \<rparr>)))"
| "handleStatsRequest state (STATS_FETCH_SUCCESS err payload) =
     (if err then Inr (Some (state\<lparr> st_inRequest := Some False, st_error := payload \<rparr>))
      else let newItems = object_assign (object_assign [] (js_or (st_items state) (JObj [])))
                                        (js_or payload (JObj []))
           in and_then (immutable_from (JObj newItems)) (\<lambda>i.
                Inr (Some (state\<lparr> st_inRequest := Some False, st_items := i \<rparr>))))"
| "handleStatsRequest state (STATS_FAILURE err payload) =
     (if err then Inr (Some (state\<lparr> st_inRequest := Some False, st_error := payload \<rparr>))
      else Inr None)"
| "handleStatsRequest state _ = Inr None"

fun stats :: "stats_state option \<Rightarrow> action \<Rightarrow> stats_state option result" where
  "stats st STATS_TOGGLE =
     (let state = (case st of None \<Rightarrow> INITIAL_STATS | Some s \<Rightarrow> s)
      in Inr (Some (state\<lparr> st_show := \<not> st_show state \<rparr>)))"
| "stats st (SELECT_NAMESPACE n can) = Inr (Some INITIAL_STATS)"
| "stats st (CONFIGS_REQUEST err payload) = Inr (Some INITIAL_STATS)"
| "stats st (STATS_REQUEST err payload) =
     handleStatsRequest (case st of None \<Rightarrow> INITIAL_STATS | Some s \<Rightarrow> s) (STATS_REQUEST err payload)"
| "stats st (STATS_FAILURE err payload) =
     handleStatsRequest (case st of None \<Rightarrow> INITIAL_STATS | Some s \<Rightarrow> s) (STATS_FAILURE err payload)"
| "stats st (STATS_FETCH_SUCCESS err payload) =
     handleStatsRequest (case st of None \<Rightarrow> INITIAL_STATS | Some s \<Rightarrow> s)
       (STATS_FETCH_SUCCESS err payload)"
| "stats st _ = Inr (Some (case st of None \<Rightarrow> INITIAL_STATS | Some s \<Rightarrow> s))"

section \<open>confirmation.jsx\<close>

text \<open>The state is the \<open>CONFIRM\<close> action itself, or \<open>null\<close>.\<close>

fun confirm :: "action option \<Rightarrow> action \<Rightarrow> action option" where
  "confirm st (CONFIRM a header body) = Some (CONFIRM a header body)"
| "confirm st _ = None"

section \<open>capabilities.jsx\<close>

fun capabilities :: "props option \<Rightarrow> action \<Rightarrow> props" where
  "capabilities st (CAPABILITIES_REQUEST cfgs) =
     put_prop (put_prop (object_assign [] (JObj (case st of None \<Rightarrow> [] | Some s \<Rightarrow> s)))
        ''inRequest'' (JBool True)) ''error'' JNull"
| "capabilities st (CAPABILITIES_FETCH_SUCCESS payload) = object_assign [] payload"
| "capabilities st _ = (case st of None \<Rightarrow> [] | Some s \<Rightarrow> s)"

section \<open>Lemmas\<close>

lemma configs_Some: "configs st a = Inr r \<Longrightarrow> \<exists>s. r = Some s"
  by (cases a) (auto simp: js_simps split: if_splits)

text \<open>
  Only a failure action without its error flag makes \<open>stats\<close> return \<open>undefined\<close>, and only a
  payload nested too deeply makes it throw.
\<close>

lemma stats_None: "stats st a = Inr None \<longleftrightarrow> (\<exists>payload. a = STATS_FAILURE False payload)"
  by (cases a) (auto simp: js_simps Let_def)

lemma stats_throws:
  "stats st a = Inl e \<Longrightarrow> (\<exists>payload. a = STATS_FETCH_SUCCESS False payload)"
  by (cases a) (auto simp: Let_def split: if_splits)

end
