(* ===== verification/Store.thy ===== *)
theory Store
  imports Slice_Reducers
begin

text \<open>
  The store: the root reducer (\<^verbatim>\<open>reducers/root.jsx\<close>), its configuration (\<^verbatim>\<open>store.js\<close>), and the
  library code these run, as compiled into \<^verbatim>\<open>src/admin/public/js/bundle.js\<close>: \<open>combineReducers\<close> and
  the store's \<open>dispatch\<close> (Redux), the thunk middleware and the API middleware.

  A \<open>world\<close> is the state of the store, the asynchronous functions that wait for an answer
  (\<open>task\<close>), and the errors that nobody caught. Dispatching runs up to the first \<open>await\<close>;
  \<open>deliver\<close> resumes a task with what the network or the page answered (\<open>answer\<close>, an argument: the
  server and the capabilities hook are outside this program).
\<close>

section \<open>The root reducer\<close>

record root_state =
  rt_namespaces :: ns_state
  rt_selectedNamespace :: "selection option"
  rt_currentVersion :: jsval
  rt_stats :: stats_state
  rt_configs :: configs_state
  rt_confirm :: "action option"
  rt_capabilities :: props

definition undefined_slice :: "string \<Rightarrow> action \<Rightarrow> js_error" where
  "undefined_slice slice a =
     PlainError (''Given action '' @ action_type a @ '', reducer '' @ slice @ '' returned undefined.'')"

text \<open>
  \<open>combineReducers\<close>: the slices in the order of the object in \<^verbatim>\<open>root.jsx\<close>, all with the same action
  object; a slice that is \<open>undefined\<close> is an error.
\<close>

definition rootReducer :: "root_state option \<Rightarrow> action \<Rightarrow> (root_state \<times> action) result" where
  "rootReducer st a0 =
     and_then (history_reducer namespaces (map_option rt_namespaces st) a0) (\<lambda>(ns, a).
     and_then (currentVersion (map_option rt_currentVersion st) a) (\<lambda>ver.
     and_then (stats (map_option rt_stats st) a) (\<lambda>sts.
       case sts of
         None \<Rightarrow> Inl (undefined_slice ''stats'' a)
       | Some sts' \<Rightarrow>
           and_then (configs (map_option rt_configs st) a) (\<lambda>cfg.
             case cfg of
               None \<Rightarrow> Inl (undefined_slice ''configs'' a)
             | Some cfg' \<Rightarrow>
                 Inr (\<lparr> rt_namespaces = ns,
                        rt_selectedNamespace =
                          selectedNamespace (Option.bind st rt_selectedNamespace) a,
                        rt_currentVersion = ver,
                        rt_stats = sts',
                        rt_configs = cfg',
                        rt_confirm = confirm (Option.bind st rt_confirm) a,
                        rt_capabilities = capabilities (map_option rt_capabilities st) a \<rparr>, a)))))"

definition INIT_action :: action where
  "INIT_action = OTHER ''@@redux/INIT''"

text \<open>The state after \<open>createStore\<close> has dispatched its initial action.\<close>

definition initial_root :: root_state where
  "initial_root =
     \<lparr> rt_namespaces = INITIAL_HISTORY, rt_selectedNamespace = None, rt_currentVersion = JNum 0,
       rt_stats = INITIAL_STATS, rt_configs = INITIAL_CONFIGS, rt_confirm = None,
       rt_capabilities = [] \<rparr>"

lemma createStore_initial: "rootReducer None INIT_action = Inr (initial_root, INIT_action)"
  by (simp add: rootReducer_def INIT_action_def initial_root_def history_reducer_def Let_def
      reduce_def unchanged_def is_mutable_def mutable_exports_def INITIAL_HISTORY_def)

section \<open>Dispatch\<close>

text \<open>The store's own \<open>dispatch\<close>: the state changes only if the reducer returns.\<close>

definition base_dispatch :: "root_state \<Rightarrow> action \<Rightarrow> root_state \<times> action result" where
  "base_dispatch s a =
     (case rootReducer (Some s) a of Inl e \<Rightarrow> (s, Inl e) | Inr (s', a') \<Rightarrow> (s', Inr a'))"

datatype item =
    Act action
  | Api rsaa
  | Thk thunk

fun item_of :: "dispatchable \<Rightarrow> item" where
  "item_of (Plain a) = Act a"
| "item_of (Call_Api r) = Api r"

datatype task =
    Await_configs bool
    \<comment> \<open>\<open>fetchConfigs\<close> waiting for the response; the flag says that \<open>fetchCapabilities\<close> follows\<close>
  | Await_api rsaa
  | Await_capabilities
  | Then_toggle
    \<comment> \<open>the callback that \<open>toggleStats\<close> passes to \<open>then\<close>\<close>

record world =
  store :: root_state
  pending :: "task list"
  uncaught :: "js_error list"

text \<open>What \<open>dispatch\<close> returns, as far as callers look at it.\<close>

datatype ret = Ret_action action | Ret_promise | Ret_undefined

text \<open>The action that has one of the types an API call names.\<close>

definition api_action :: "string \<Rightarrow> bool \<Rightarrow> jsval \<Rightarrow> action" where
  "api_action t err payload =
     (if t = ''CONFIGS_REQUEST'' then CONFIGS_REQUEST err payload
      else if t = ''CONFIGS_FETCH_SUCCESS'' then CONFIGS_FETCH_SUCCESS err payload
      else if t = ''CONFIGS_COMMIT_SUCCESS'' then CONFIGS_COMMIT_SUCCESS err payload
      else if t = ''CONFIGS_FAILURE'' then CONFIGS_FAILURE err payload
      else if t = ''STATS_REQUEST'' then STATS_REQUEST err payload
      else if t = ''STATS_FETCH_SUCCESS'' then STATS_FETCH_SUCCESS err payload
      else if t = ''STATS_FAILURE'' then STATS_FAILURE err payload
      else OTHER t)"

definition error_object :: "string \<Rightarrow> string \<Rightarrow> jsval" where
  "error_object name message = JObj [(''name'', JStr name), (''message'', JStr message)]"

definition api_error :: "int \<Rightarrow> string \<Rightarrow> jsval \<Rightarrow> jsval" where
  "api_error status statusText response =
     JObj [(''name'', JStr ''ApiError''), (''status'', JNum status), (''statusText'', JStr statusText),
           (''response'', response), (''message'', JStr (show_int status @ '' - '' @ statusText))]"

fun error_value :: "js_error \<Rightarrow> jsval" where
  "error_value (TypeError m) = error_object ''TypeError'' m"
| "error_value (ImmutableError m) = error_object ''MyError'' m"
| "error_value (PlainError m) = error_object ''Error'' m"
| "error_value (OutsideModel m) = error_object ''Error'' m"

text \<open>The checks of \<open>validateRSAA\<close> on the fields the creators fill in.\<close>

definition validateRSAA :: "rsaa \<Rightarrow> bool" where
  "validateRSAA r \<longleftrightarrow>
     method_name r \<in> {''GET'', ''HEAD'', ''POST'', ''PUT'', ''PATCH'', ''DELETE'', ''OPTIONS''} \<and>
     credentials r \<in> {''omit'', ''same-origin'', ''include''}"

definition throw_uncaught :: "world \<Rightarrow> js_error \<Rightarrow> world" where
  "throw_uncaught w e = w\<lparr> uncaught := uncaught w @ [e] \<rparr>"

text \<open>\<open>next(action)\<close> inside an asynchronous function: an exception rejects its promise.\<close>

definition next_async :: "world \<Rightarrow> action \<Rightarrow> world" where
  "next_async w a =
     (case base_dispatch (store w) a of
        (s, Inl e) \<Rightarrow> throw_uncaught w e
      | (s, Inr _) \<Rightarrow> w\<lparr> store := s \<rparr>)"

text \<open>The part of the API middleware that runs before the request is answered.\<close>

definition api_start :: "world \<Rightarrow> rsaa \<Rightarrow> world" where
  "api_start w r =
     (case types r of (req, _, _) \<Rightarrow>
        if \<not> validateRSAA r
        then next_async w (api_action req True (error_object ''InvalidRSAA'' ''Invalid RSAA''))
        else case base_dispatch (store w) (api_action req False JUndef) of
               (s, Inl e) \<Rightarrow> throw_uncaught w e
             | (s, Inr _) \<Rightarrow> w\<lparr> store := s, pending := pending w @ [Await_api r] \<rparr>)"

text \<open>
  \<open>fetchConfigs\<close>: the request action is dispatched inside the \<open>try\<close> block, so an exception there
  is dispatched as a failure.
\<close>

definition configs_failure :: "world \<Rightarrow> jsval \<Rightarrow> world" where
  "configs_failure w e = next_async w (CONFIGS_FAILURE False e)"

definition fetchConfigs_start :: "world \<Rightarrow> bool \<Rightarrow> world" where
  "fetchConfigs_start w follow =
     (case base_dispatch (store w) (CONFIGS_REQUEST False JUndef) of
        (s, Inl e) \<Rightarrow> configs_failure w (error_value e)
      | (s, Inr _) \<Rightarrow> w\<lparr> store := s, pending := pending w @ [Await_configs follow] \<rparr>)"

definition fetchCapabilities_start :: "world \<Rightarrow> jsval \<Rightarrow> world" where
  "fetchCapabilities_start w cfgs =
     (case base_dispatch (store w) (CAPABILITIES_REQUEST cfgs) of
        (s, Inl e) \<Rightarrow> throw_uncaught w e
      | (s, Inr _) \<Rightarrow> w\<lparr> store := s, pending := pending w @ [Await_capabilities] \<rparr>)"

text \<open>
  \<open>dispatch\<close> of the configured store: the API middleware first, then thunks, then the store. A plain
  action passes both and the action itself is returned, so \<open>toggleStats\<close> reads \<open>then\<close> of an object
  that has none.
\<close>

definition dispatch_action :: "world \<Rightarrow> action \<Rightarrow> world \<times> ret result" where
  "dispatch_action w a =
     (case base_dispatch (store w) a of
        (s, Inl e) \<Rightarrow> (w, Inl e)
      | (s, Inr a') \<Rightarrow> (w\<lparr> store := s \<rparr>, Inr (Ret_action a')))"

definition then_of :: "ret \<Rightarrow> unit result" where
  "then_of r =
     (case r of Ret_promise \<Rightarrow> Inr () | _ \<Rightarrow> Inl (TypeError ''dispatch(...).then is not a function''))"

fun run_thunk :: "world \<Rightarrow> thunk \<Rightarrow> world \<times> ret result" where
  "run_thunk w (Dispatches a) = dispatch_action w a"
| "run_thunk w (Runs a) =
     (case dispatch_action w a of (w', r) \<Rightarrow> (w', and_then r (\<lambda>_. Inr Ret_undefined)))"
| "run_thunk w (Dispatches_api r) = (api_start w r, Inr Ret_promise)"
| "run_thunk w Toggle_stats =
     (case dispatch_action w STATS_TOGGLE of
        (w', Inl e) \<Rightarrow> (w', Inl e)
      | (w', Inr r) \<Rightarrow>
          (case then_of r of
             Inl e \<Rightarrow> (w', Inl e)
           | Inr _ \<Rightarrow> (w'\<lparr> pending := pending w' @ [Then_toggle] \<rparr>, Inr Ret_promise)))"
| "run_thunk w Fetch_configs = (fetchConfigs_start w False, Inr Ret_promise)"
| "run_thunk w (Fetch_capabilities cfgs) = (fetchCapabilities_start w cfgs, Inr Ret_promise)"

fun dispatch :: "world \<Rightarrow> item \<Rightarrow> world \<times> ret result" where
  "dispatch w (Act a) = dispatch_action w a"
| "dispatch w (Api r) = (api_start w r, Inr Ret_promise)"
| "dispatch w (Thk t) = run_thunk w t"

text \<open>An event handler of the page: an exception it does not catch is reported and lost.\<close>

definition handle_event :: "world \<Rightarrow> item \<Rightarrow> world" where
  "handle_event w i =
     (case dispatch w i of
        (w', Inl e) \<Rightarrow> throw_uncaught w' e
      | (w', Inr _) \<Rightarrow> w')"

section \<open>Answers\<close>

text \<open>
  A response has its status, whether its content type is JSON, and the text as JSON reads it:
  a value, or the message of the syntax error.
\<close>

datatype answer =
    Network_error string
  | Response bool int string bool "string + jsval"
  | Capabilities_callback jsval
  | Resolved

text \<open>\<open>getJSON\<close> of the API middleware.\<close>

definition getJSON :: "int \<Rightarrow> bool \<Rightarrow> string + jsval \<Rightarrow> string + jsval" where
  "getJSON status is_json body =
     (if status = 204 \<or> status = 205 \<or> \<not> is_json then Inr JUndef else body)"

text \<open>The action that ends an API call, with \<open>actionWith\<close> turning a failed payload into an error.\<close>

fun api_result :: "rsaa \<Rightarrow> answer \<Rightarrow> action option" where
  "api_result r (Network_error m) =
     (case types r of (req, _, _) \<Rightarrow> Some (api_action req True (error_object ''RequestError'' m)))"
| "api_result r (Response ok status text is_json body) =
     (case types r of (_, succ, fail) \<Rightarrow>
        if ok
        then (case getJSON status is_json body of
                Inr v \<Rightarrow> Some (api_action succ False v)
              | Inl m \<Rightarrow> Some (api_action succ True (error_object ''InternalError'' m)))
        else (case getJSON status is_json body of
                Inr v \<Rightarrow> Some (api_action fail True (api_error status text v))
              | Inl m \<Rightarrow> Some (api_action fail True (error_object ''InternalError'' m))))"
| "api_result r _ = None"

text \<open>
  \<open>fetchConfigs\<close> after the response: it does not look at the status, and an exception of the
  dispatch (a payload the reducers cannot read) is caught and dispatched as the failure. The
  result is the payload of the action that was dispatched last, which \<open>fetchData\<close> hands on.
\<close>

definition fetchConfigs_finish :: "world \<Rightarrow> answer \<Rightarrow> world \<times> jsval" where
  "fetchConfigs_finish w ans =
     (case ans of
        Response ok status text is_json (Inr v) \<Rightarrow>
          (case base_dispatch (store w) (CONFIGS_FETCH_SUCCESS False v) of
             (s, Inr _) \<Rightarrow> (w\<lparr> store := s \<rparr>, v)
           | (s, Inl e) \<Rightarrow> (configs_failure w (error_value e), error_value e))
      | Response ok status text is_json (Inl m) \<Rightarrow>
          (configs_failure w (error_object ''SyntaxError'' m), error_object ''SyntaxError'' m)
      | Network_error m \<Rightarrow>
          (configs_failure w (error_object ''TypeError'' m), error_object ''TypeError'' m)
      | _ \<Rightarrow> (w, JUndef))"

text \<open>The callback of \<open>toggleStats\<close>.\<close>

definition toggle_callback :: "world \<Rightarrow> world" where
  "toggle_callback w =
     (if st_show (rt_stats (store w))
      then (case rt_selectedNamespace (store w) of
              None \<Rightarrow> throw_uncaught w (TypeError ''Cannot read property namespace'')
            | Some sel \<Rightarrow> api_start w (fetchStatsAction (sel_namespace sel) None))
      else w)"

fun deliver :: "world \<Rightarrow> task \<Rightarrow> answer \<Rightarrow> world" where
  "deliver w (Await_configs follow) ans =
     (case fetchConfigs_finish w ans of
        (w', payload) \<Rightarrow> if follow then fetchCapabilities_start w' payload else w')"
| "deliver w (Await_api r) ans =
     (case api_result r ans of None \<Rightarrow> w | Some a \<Rightarrow> next_async w a)"
| "deliver w Await_capabilities ans =
     (case ans of
        Capabilities_callback payload \<Rightarrow> next_async w (CAPABILITIES_FETCH_SUCCESS payload)
      | _ \<Rightarrow> w)"
| "deliver w Then_toggle ans = toggle_callback w"

text \<open>The answers a task can get.\<close>

fun answers :: "task \<Rightarrow> answer \<Rightarrow> bool" where
  "answers (Await_configs _) (Network_error _) = True"
| "answers (Await_configs _) (Response _ _ _ _ _) = True"
| "answers (Await_api _) (Network_error _) = True"
| "answers (Await_api _) (Response _ _ _ _ _) = True"
| "answers Await_capabilities (Capabilities_callback _) = True"
| "answers Then_toggle Resolved = True"
| "answers _ _ = False"

end
