(* ===== verification/Containers.thy ===== *)
theory Containers
  imports Components Store
begin

text \<open>
  The containers (\<^verbatim>\<open>src/admin/public/src/containers\<close>): what the page shows for a state of the
  store and the local states of the components, and what the handlers of its elements do.

  \<open>page\<close> is what \<open>Root\<close> passes to \<open>QuotaService\<close>: the state of the store with the selected
  namespace looked up in the tree, and the environment. \<open>render_element\<close> renders one component
  element and \<open>expand\<close> the whole page, down to DOM elements.
\<close>

section \<open>Root.jsx\<close>

record environment =
  env_environment :: string
  env_capabilities :: bool

record selected =
  s_namespace :: jsval
  s_canMakeChanges :: bool

record page =
  p_state :: root_state
  p_selected :: "selected option"
  p_env :: environment

definition Root_mapState :: "environment \<Rightarrow> root_state \<Rightarrow> page" where
  "Root_mapState env state =
     \<lparr> p_state = state,
       p_selected =
         map_option (\<lambda>sel. \<lparr> s_namespace = im_prop (items (cur (rt_namespaces state))) (sel_namespace sel),
                            s_canMakeChanges = canMakeChanges sel \<rparr>)
           (rt_selectedNamespace state),
       p_env = env \<rparr>"

section \<open>Bucket.jsx\<close>

definition bucket_fields :: "(string \<times> string \<times> string) list" where
  "bucket_fields =
     [(''size'', ''Maximum number of tokens in a bucket.'', ''100''),
      (''fill_rate'', ''Token fill rate per second.'', ''50''),
      (''wait_timeout_millis'',
       ''Maximum time a request can wait for future tokens (milliseconds).'', ''1000''),
      (''max_idle_millis'',
       ''When a bucket is idle (not serving requests), amount of time before a bucket '' @
       ''resets to the initial size (milliseconds).'', ''-1''),
      (''max_debt_millis'',
       ''Maximum amount of time in the future a request can pre-reserve tokens (milliseconds).'',
       ''10000''),
      (''max_tokens_per_request'', ''Maximum number of tokens allowed per request.'', ''50'')]"

definition renderShowDynamicStats :: vnode where
  "renderShowDynamicStats =
     El ''div'' [cls ''input-btn'']
       [El ''button'' [cls ''btn'', (''onClick'', A_on H_toggle_stats)] [Txt ''Dynamic Bucket Stats'']]"

definition bucket_field :: "bucket_props \<Rightarrow> jsval \<Rightarrow> string \<times> string \<times> string \<Rightarrow> vnode" where
  "bucket_field p name f =
     (case f of (key, title, hint) \<Rightarrow>
        Comp (E_Field \<lparr> fp_keyName = key, fp_parent = name,
                       fp_disabled = (bp_canMakeChanges p = Some False),
                       fp_value = im_prop (bp_bucket p) key,
                       fp_target = Of_bucket (bp_namespace_name p) name,
                       fp_title = title, fp_placeholder = Some hint \<rparr>))"

definition Bucket_render :: "bucket_props \<Rightarrow> vnode result" where
  "Bucket_render p =
     (if nullish (bp_bucket p) then Inl (TypeError ''Cannot read property name'')
      else
        let name = im_prop (bp_bucket p) ''name''
        in and_then (child_of name) (\<lambda>title.
             Inr (El ''div'' [cls ''bucket flex-tile flex-box'']
               ([El ''div'' [cls ''flex-container legend'']
                  (El ''h4'' [] title #
                   (if bp_canMakeChanges p \<noteq> Some False
                    then [El ''button'' [cls ''btn btn-danger'',
                            (''onClick'', A_on (H_remove_bucket (bp_namespace_name p) name))]
                            [Txt ''Remove Bucket'']]
                    else []))]
                @ map (bucket_field p name) bucket_fields
                @ (if bp_showDynamicStats p then [renderShowDynamicStats] else [])))))"

section \<open>Changes.jsx\<close>

definition renderChanges_list :: "history \<Rightarrow> vnode" where
  "renderChanges_list h =
     (if past h = [] \<and> future h = []
      then El ''div'' [cls ''changes''] [El ''div'' [cls ''change future''] [Txt ''no changes recorded'']]
      else El ''div'' [cls ''changes'']
             (map (\<lambda>e. Comp (E_Change ''future'' (e_change e))) (future h)
              @ map (\<lambda>e. Comp (E_Change ''past'' (e_change e))) (past h)))"

definition Changes_render :: "history \<Rightarrow> vnode" where
  "Changes_render h =
     El ''div'' []
       [El ''div'' [cls ''actions'']
          [El ''div'' [cls ''undo-redo'']
             [El ''button'' [cls ''btn'', (''title'', A_text ''Undo last change''),
                (''onClick'', A_on H_undo), (''disabled'', A_bool (past h = []))] [Txt ''Undo''],
              El ''button'' [cls ''btn'', (''title'', A_text ''Redo last change''),
                (''onClick'', A_on H_redo), (''disabled'', A_bool (future h = []))] [Txt ''Redo'']],
           El ''div'' [cls ''save-refresh'']
             [El ''button'' [cls ''btn btn-danger'', (''title'', A_text ''Refresh configuration''),
                (''onClick'', A_on H_refresh)] [Txt ''Refresh''],
              El ''button'' [cls ''btn btn-primary'', (''onClick'', A_on H_commit)] [Txt ''Save'']]],
        renderChanges_list h]"

section \<open>Configs.jsx\<close>

text \<open>Each configuration is read for its key; a value without \<open>map\<close> makes the call throw.\<close>

definition config_entry :: "jsval \<Rightarrow> vnode result" where
  "config_entry c =
     and_then (get_prop c ''version'') (\<lambda>_. and_then (get_prop c ''date'') (\<lambda>_.
       Inr (Comp (E_Config c (H_load c)))))"

definition Configs_render :: "jsval \<Rightarrow> vnode list result" where
  "Configs_render its =
     (if its = JUndef then Inr []
      else case its of
             JArr cs \<Rightarrow> and_then (map_result config_entry cs) (\<lambda>es. Inr [El ''div'' [cls ''configs''] es])
           | _ \<Rightarrow> Inl (TypeError ''items.map is not a function''))"

section \<open>Namespace.jsx\<close>

text \<open>The values of \<open>Object.keys(buckets).map(key => buckets[key])\<close>, nothing if there are none.\<close>

definition bucket_values :: "jsval \<Rightarrow> jsval list" where
  "bucket_values buckets =
     (if truthy buckets then map (im_prop buckets) (object_keys (own_props buckets)) else [])"

definition renderBucket :: "jsval \<Rightarrow> bool option \<Rightarrow> bool \<Rightarrow> jsval \<Rightarrow> vnode list" where
  "renderBucket namespace_name can showDynamicStats bucket =
     (if truthy bucket
      then [Comp (E_Bucket \<lparr> bp_namespace_name = namespace_name, bp_bucket = bucket,
                            bp_canMakeChanges = can, bp_showDynamicStats = showDynamicStats \<rparr>)]
      else [])"

definition Namespace_render :: "jsval \<Rightarrow> bool \<Rightarrow> vnode result" where
  "Namespace_render namespace can =
     (if nullish namespace then Inl (TypeError ''Cannot read property buckets'')
      else
        let name = im_prop namespace ''name''
        in Inr (El ''div'' [cls ''namespace flex-box flex-tile'']
             [Comp (E_NamespaceHeader namespace (Some can) H_select_none),
              El ''div'' [cls ''buckets flex-container flex-column flex-wrap'']
                ([El ''div'' [cls ''bucket flex-box flex-tile'']
                   [El ''div'' [cls ''flex-container legend'']
                      [El ''h4'' [] [Txt ''Namespace Configuration'']],
                    Comp (E_Field \<lparr> fp_keyName = ''max_dynamic_buckets'', fp_parent = name,
                      fp_disabled = (can = False),
                      fp_value = im_prop namespace ''max_dynamic_buckets'',
                      fp_target = Of_namespace name,
                      fp_title =
                        ''Maximum amount of dynamic buckets allowed before requests are rejected.'',
                      fp_placeholder = None \<rparr>)]]
                 @ renderBucket name (Some can) True (im_prop namespace ''dynamic_bucket_template'')
                 @ renderBucket name (Some can) False (im_prop namespace ''default_bucket'')
                 @ concat (map (renderBucket name (Some can) False)
                     (bucket_values (im_prop namespace ''buckets''))))]))"

section \<open>NamespaceTile.jsx\<close>

record tile_state =
  ts_canMakeChanges :: jsval
  ts_fetched :: bool

definition tile_initial :: tile_state where
  "tile_initial = \<lparr> ts_canMakeChanges = JUndef, ts_fetched = False \<rparr>"

definition tile_canMakeChanges :: "tile_state \<Rightarrow> bool" where
  "tile_canMakeChanges st \<longleftrightarrow> ts_canMakeChanges st \<noteq> JBool False"

definition tile_onClick :: "tile_props \<Rightarrow> tile_state \<Rightarrow> handler" where
  "tile_onClick p st =
     H_select (im_prop (tp_namespace p) ''name'')
       (if tp_capabilitiesEnabled p then tile_canMakeChanges st else True)"

text \<open>The event that asks for the capabilities of a namespace: its name, if one is sent.\<close>

definition fetchCanMakeChanges :: "tile_props \<Rightarrow> tile_state \<Rightarrow> jsval option" where
  "fetchCanMakeChanges p st = (if ts_fetched st then None else Some (im_prop (tp_namespace p) ''name''))"

text \<open>Its callback, whose argument defaults to \<open>true\<close>.\<close>

definition tile_callback :: "jsval \<Rightarrow> tile_state \<Rightarrow> tile_state" where
  "tile_callback v st =
     st\<lparr> ts_canMakeChanges := (if v = JUndef then JBool True else v), ts_fetched := True \<rparr>"

definition tile_willMount :: "tile_props \<Rightarrow> tile_state \<Rightarrow> jsval option" where
  "tile_willMount p st =
     (if tp_capabilitiesEnabled p \<and> \<not> truthy (prop_of (JObj (tp_capabilities p)) ''inRequest'') \<and>
         \<not> truthy (prop_of (JObj (tp_capabilities p)) ''error'')
      then fetchCanMakeChanges p st else None)"

definition tile_bucket :: "jsval \<Rightarrow> vnode list result" where
  "tile_bucket bucket =
     (if truthy bucket
      then and_then (child_of (im_prop bucket ''name'')) (\<lambda>t. Inr [El ''div'' [cls ''bucket''] t])
      else Inr [])"

definition NamespaceTile_render :: "tile_props \<Rightarrow> tile_state \<Rightarrow> vnode result" where
  "NamespaceTile_render p st =
     (if nullish (tp_namespace p) then Inl (TypeError ''Cannot read property buckets'')
      else
        let namespace = tp_namespace p;
            gray = (tp_capabilitiesEnabled p \<and> \<not> tile_canMakeChanges st);
            className = ''flex-box flex-tile namespace'' @ (if tp_isSelected p then '' selected'' else [])
                        @ (if gray then '' disabled'' else [])
        in and_then (child_of (im_prop namespace ''name'')) (\<lambda>title.
           and_then (map_result tile_bucket
                      (im_prop namespace ''dynamic_bucket_template'' # im_prop namespace ''default_bucket''
                       # bucket_values (im_prop namespace ''buckets''))) (\<lambda>bs.
             Inr (El ''div'' [cls className, (''onClick'', A_on (tile_onClick p st))]
               ([El ''p'' [cls ''title''] title, El ''hr'' [] []] @ concat bs)))))"

section \<open>Namespaces.jsx\<close>

definition namespace_tile :: "page \<Rightarrow> jsval \<Rightarrow> string \<Rightarrow> vnode result" where
  "namespace_tile pg its key =
     (let namespace = im_prop its key in
      and_then (get_prop namespace ''name'') (\<lambda>name.
      and_then (case p_selected pg of
                  None \<Rightarrow> Inr (JStr [])
                | Some sel \<Rightarrow> get_prop (s_namespace sel) ''name'') (\<lambda>chosen.
        Inr (Comp (E_NamespaceTile key
          \<lparr> tp_capabilities = rt_capabilities (p_state pg),
            tp_capabilitiesEnabled = env_capabilities (p_env pg),
            tp_isSelected = (name = chosen), tp_namespace = namespace \<rparr>)))))"

definition Namespaces_render :: "page \<Rightarrow> vnode result" where
  "Namespaces_render pg =
     (let its = items (cur (rt_namespaces (p_state pg))) in
      and_then (if truthy its then map_result (namespace_tile pg its) (object_keys (own_props its))
                else Inr []) (\<lambda>tiles.
        Inr (El ''div'' [cls (''namespaces flex-container flex-box-lg'' @
                        (if p_selected pg \<noteq> None then '' flexed'' else []))] tiles)))"

section \<open>SelectedNamespace.jsx\<close>

definition SelectedNamespace_render :: "page \<Rightarrow> vnode list" where
  "SelectedNamespace_render pg =
     (case p_selected pg of
        None \<Rightarrow> []
      | Some sel \<Rightarrow>
          [El ''div'' [cls ''flex-container flex-box-lg selected-namespace'']
             [if st_show (rt_stats (p_state pg))
              then Comp (E_Stats (s_namespace sel))
              else Comp (E_Namespace (s_namespace sel) (s_canMakeChanges sel))]])"

section \<open>Stats.jsx\<close>

record stats_view =
  sv_searchValue :: string
  sv_searchTimer :: "(jsval \<times> string) option"
  \<comment> \<open>the running timer, with the namespace's name and the text its function has captured\<close>

definition stats_view_initial :: stats_view where
  "stats_view_initial = \<lparr> sv_searchValue = [], sv_searchTimer = None \<rparr>"

text \<open>
  Typing stops the running timer and starts one for the new text; \<open>searchStats(value)\<close> captures the
  namespace of that moment.
\<close>

definition handleSearchChange :: "jsval \<Rightarrow> stats_view \<Rightarrow> string \<Rightarrow> stats_view" where
  "handleSearchChange namespace st val =
     st\<lparr> sv_searchValue := val, sv_searchTimer := Some (im_prop namespace ''name'', val) \<rparr>"

text \<open>
  The timer fires: \<open>fetchStats(namespace.name, bucket)\<close>. The state keeps the identifier of a timer
  that no longer runs, which is the same as none.
\<close>

definition searchStats :: "stats_view \<Rightarrow> stats_view \<times> thunk option" where
  "searchStats st =
     (case sv_searchTimer st of
        None \<Rightarrow> (st, None)
      | Some (n, b) \<Rightarrow>
          (st\<lparr> sv_searchTimer := None \<rparr>, Some (fetchStats_thunk (to_str n) (Some b))))"

definition stat_row :: "string \<Rightarrow> jsval \<Rightarrow> vnode result" where
  "stat_row label v =
     and_then (child_of v) (\<lambda>cs.
       Inr (El ''div'' [cls ''flex-container input-box'']
         [El ''label'' [cls ''input-label''] [Txt label], El ''div'' [cls ''input-field''] cs]))"

definition renderBucketStats :: "jsval \<Rightarrow> string \<Rightarrow> vnode list result" where
  "renderBucketStats its bucketName =
     (if \<not> truthy its then Inr []
      else let st = im_prop its bucketName in
           if \<not> truthy st then Inr []
           else and_then (stat_row ''hits'' (im_prop st ''hits'')) (\<lambda>h.
                and_then (stat_row ''misses'' (im_prop st ''misses'')) (\<lambda>m.
                  Inr [El ''div'' [] [h, m]])))"

definition renderStatsError :: "jsval \<Rightarrow> vnode list" where
  "renderStatsError error = (if truthy error then [Comp (E_Error error)] else [])"

definition renderBucketSearch :: "stats_state \<Rightarrow> stats_view \<Rightarrow> vnode result" where
  "renderBucketSearch ss st =
     and_then (renderBucketStats (st_items ss) (sv_searchValue st)) (\<lambda>found.
       Inr (El ''div'' [cls ''bucket flex-tile flex-box'']
         ([El ''div'' [cls (''flex-container input-box flex-end'' @
                       (if st_inRequest ss = Some True then '' loading'' else []))]
             [El ''input'' [(''type'', A_text ''text''),
                (''placeholder'', A_text ''Search dynamic bucket name''), cls ''flex-box'',
                (''value'', A_text (sv_searchValue st)), (''onChange'', A_on H_search)] [],
              El ''i'' [cls ''icon''] []]]
          @ found @ renderStatsError (st_error ss))))"

definition top_row :: "jsval \<Rightarrow> vnode result" where
  "top_row stat =
     and_then (get_prop stat ''bucket'') (\<lambda>b.
     and_then (get_prop stat ''value'') (\<lambda>v.
     and_then (child_of b) (\<lambda>bs.
     and_then (child_of v) (\<lambda>vs.
       Inr (El ''div'' [cls ''flex-container input-box'']
         [El ''label'' [cls ''input-label''] bs, El ''div'' [cls ''input-field''] vs])))))"

definition renderTopList :: "string \<Rightarrow> jsval \<Rightarrow> vnode list result" where
  "renderTopList title lst =
     (if \<not> truthy lst then Inr []
      else case lst of
             JArr xs \<Rightarrow>
               if xs = [] then Inr []
               else and_then (map_result top_row xs) (\<lambda>rows.
                      Inr [El ''div'' [cls ''bucket flex-tile flex-box'']
                        (El ''div'' [cls ''flex-container legend''] [El ''h4'' [] [Txt title]] # rows)])
           | JObj _ \<Rightarrow>
               (case im_prop lst ''length'' of
                  JNum n \<Rightarrow> if n = 0 then Inr [] else Inl (TypeError ''list.map is not a function'')
                | JUndef \<Rightarrow> Inl (TypeError ''list.map is not a function'')
                | _ \<Rightarrow> Inl (OutsideModel ''an object with a length''))
           | _ \<Rightarrow> Inl (TypeError ''list.map is not a function''))"

definition Stats_render :: "jsval \<Rightarrow> stats_state \<Rightarrow> stats_view \<Rightarrow> vnode result" where
  "Stats_render namespace ss st =
     (let its = js_or (st_items ss) (JObj []) in
      and_then (renderBucketSearch ss st) (\<lambda>search.
      and_then (renderTopList ''top dynamic bucket hits'' (im_prop its ''topHits'')) (\<lambda>hits.
      and_then (renderTopList ''top dynamic bucket misses'' (im_prop its ''topMisses'')) (\<lambda>misses.
        Inr (El ''div'' [cls ''namespace flex-box flex-tile'']
          [Comp (E_NamespaceHeader namespace None H_toggle_stats),
           El ''div'' [cls ''buckets''] ([search] @ hits @ misses)])))))"

section \<open>Sidebar.jsx\<close>

record sidebar_state =
  sb_namespace :: string
  sb_bucket :: string

definition sidebar_initial :: sidebar_state where
  "sidebar_initial = \<lparr> sb_namespace = [], sb_bucket = [] \<rparr>"

definition Sidebar_canMakeChanges :: "page \<Rightarrow> bool" where
  "Sidebar_canMakeChanges pg =
     (case p_selected pg of None \<Rightarrow> False | Some sel \<Rightarrow> s_canMakeChanges sel)"

definition Sidebar_handleChange :: "string \<Rightarrow> string \<Rightarrow> sidebar_state \<Rightarrow> sidebar_state" where
  "Sidebar_handleChange key val st =
     (if key = ''namespace'' then st\<lparr> sb_namespace := val \<rparr>
      else if key = ''bucket'' then st\<lparr> sb_bucket := val \<rparr>
      else st)"

definition handleAddNamespace :: "sidebar_state \<Rightarrow> sidebar_state \<times> thunk option" where
  "handleAddNamespace st =
     (if sb_namespace st \<noteq> []
      then (st\<lparr> sb_namespace := [] \<rparr>, Some (addNamespace_thunk (sb_namespace st)))
      else (st, None))"

text \<open>
  \<open>addBucket(selectedNamespace.namespace.name, bucket)\<close>; a name that is no string is outside the
  model. The closure assigns to its own argument, but clearing the text renders the sidebar again,
  which makes a new closure for the next click.
\<close>

definition handleAddBucket ::
  "page \<Rightarrow> string option \<Rightarrow> sidebar_state \<Rightarrow> sidebar_state \<times> thunk option result" where
  "handleAddBucket pg bucket st =
     (let (name, st') = (case bucket of
                           None \<Rightarrow> (sb_bucket st, st\<lparr> sb_bucket := [] \<rparr>)
                         | Some b \<Rightarrow> (b, st))
      in (st',
          if name = [] then Inr None
          else case p_selected pg of
                 None \<Rightarrow> Inl (TypeError ''Cannot read property namespace'')
               | Some sel \<Rightarrow>
                   and_then (get_prop (s_namespace sel) ''name'') (\<lambda>n.
                     case n of
                       JStr ns \<Rightarrow> Inr (Some (addBucket_thunk ns name))
                     | _ \<Rightarrow> Inl (OutsideModel ''a namespace without a name''))))"

definition Sidebar_renderError :: "page \<Rightarrow> vnode list" where
  "Sidebar_renderError pg =
     (let error = cf_error (rt_configs (p_state pg)) in
      if truthy error then [Comp (E_Error error)] else [])"

definition renderAddBucket :: "page \<Rightarrow> sidebar_state \<Rightarrow> vnode list" where
  "renderAddBucket pg st =
     (if p_selected pg = None \<or> \<not> Sidebar_canMakeChanges pg then []
      else [Comp (E_AddField (sb_bucket st) ''Bucket name'' ''Add Bucket'' (H_set_text ''bucket'')
              (H_add_bucket None))])"

definition special_button :: "jsval \<Rightarrow> string \<times> jsval \<Rightarrow> vnode list result" where
  "special_button namespace = (\<lambda>(name, key).
     and_then (get_prop namespace (to_str key)) (\<lambda>b.
       Inr (if truthy b then []
            else [El ''button'' [cls ''btn btn-primary'', (''onClick'', A_on (H_add_bucket (Some name)))]
                    [Txt ''Add '', Txt name]])))"

definition renderSpecialBucketButtons :: "page \<Rightarrow> vnode list result" where
  "renderSpecialBucketButtons pg =
     (case p_selected pg of
        None \<Rightarrow> Inr []
      | Some sel \<Rightarrow>
          if \<not> Sidebar_canMakeChanges pg then Inr []
          else and_then (map_result (special_button (s_namespace sel)) BUCKET_KEY_MAP) (\<lambda>bs.
                 if concat bs = [] then Inr []
                 else Inr [El ''div'' [cls ''flex-container flex-wrap flex-end''] (concat bs)]))"

definition renderAddNamespace :: "sidebar_state \<Rightarrow> vnode" where
  "renderAddNamespace st =
     Comp (E_AddField (sb_namespace st) ''Namespace name'' ''Add Namespace'' (H_set_text ''namespace'')
       H_add_namespace)"

definition handleCommit :: "page \<Rightarrow> thunk" where
  "handleCommit pg =
     commitConfig_thunk (items (cur (rt_namespaces (p_state pg)))) (rt_currentVersion (p_state pg))"

definition renderChanges :: "page \<Rightarrow> vnode" where
  "renderChanges pg = Comp (E_Changes (hist (rt_namespaces (p_state pg))))"

definition renderConfigs :: "page \<Rightarrow> vnode" where
  "renderConfigs pg = Comp (E_Configs (cf_items (rt_configs (p_state pg))))"

text \<open>The comparison \<open>!=\<close>, on the values that versions take.\<close>

fun loose_eq :: "jsval \<Rightarrow> jsval \<Rightarrow> bool result" where
  "loose_eq (JNum a) (JNum b) = Inr (a = b)"
| "loose_eq (JStr a) (JStr b) = Inr (a = b)"
| "loose_eq (JBool a) (JBool b) = Inr (a = b)"
| "loose_eq a b =
     (if nullish a \<or> nullish b then Inr (nullish a \<and> nullish b)
      else Inl (OutsideModel ''comparison of values of different types''))"

definition renderVersion :: "page \<Rightarrow> vnode result" where
  "renderVersion pg =
     (let ver = js_or (version (cur (rt_namespaces (p_state pg)))) (JNum 0);
          current = rt_currentVersion (p_state pg)
      in and_then (loose_eq ver current) (\<lambda>same.
           Inr (El ''h4'' [] [Txt (''v'' @ to_str current),
             El ''small'' [] [Txt (if same then [] else '' (viewing v'' @ to_str ver @ '')'')]])))"

definition Sidebar_render :: "page \<Rightarrow> sidebar_state \<Rightarrow> vnode result" where
  "Sidebar_render pg st =
     and_then (renderVersion pg) (\<lambda>ver.
     and_then (renderSpecialBucketButtons pg) (\<lambda>buttons.
       Inr (El ''div'' [cls (''flex-box-md sidebar'' @ (if p_selected pg \<noteq> None then '' flexed'' else []))]
         ([El ''div'' [] [El ''h1'' [cls (env_environment (p_env pg))] [Txt ''QuotaService''], ver],
           renderAddNamespace st]
          @ renderAddBucket pg st @ buttons @ Sidebar_renderError pg
          @ [renderChanges pg, renderConfigs pg]))))"

section \<open>QuotaService.jsx\<close>

definition fetchData :: "environment \<Rightarrow> world \<Rightarrow> world" where
  "fetchData env w = fetchConfigs_start w (env_capabilities env)"

text \<open>The condition of \<open>UNSAFE_componentWillReceiveProps\<close>, and what it does.\<close>

definition needs_refetch :: "root_state \<Rightarrow> bool" where
  "needs_refetch s \<longleftrightarrow>
     cf_inRequest (rt_configs s) \<noteq> Some True \<and> \<not> truthy (cf_error (rt_configs s)) \<and>
     cf_items (rt_configs s) = JUndef"

definition willReceiveProps :: "environment \<Rightarrow> world \<Rightarrow> world" where
  "willReceiveProps env w = (if needs_refetch (store w) then fetchData env w else w)"

definition renderConfirmation :: "action \<Rightarrow> vnode result" where
  "renderConfirmation c =
     (case c of
        CONFIRM d header body \<Rightarrow> Inr (Comp (E_Confirmation d header body))
      | _ \<Rightarrow> Inl (OutsideModel ''a confirmation that is no question''))"

definition renderLoading :: vnode where
  "renderLoading =
     El ''div'' [cls ''flex-container flex-box-lg''] [El ''div'' [cls ''loader''] [Txt ''Loading...'']]"

definition isLoading :: "page \<Rightarrow> bool" where
  "isLoading pg \<longleftrightarrow>
     cf_inRequest (rt_configs (p_state pg)) = Some True \<or>
     truthy (prop_of (JObj (rt_capabilities (p_state pg))) ''inRequest'')"

definition QuotaService_render :: "page \<Rightarrow> vnode result" where
  "QuotaService_render pg =
     (let can = (case p_selected pg of None \<Rightarrow> True | Some sel \<Rightarrow> s_canMakeChanges sel);
          conf = rt_confirm (p_state pg)
      in and_then (case conf of None \<Rightarrow> Inr [] | Some c \<Rightarrow> and_then (renderConfirmation c) (\<lambda>n. Inr [n]))
           (\<lambda>dialog.
             Inr (El ''div'' []
               (dialog
                @ (if can then []
                   else [El ''div'' [cls ''warning'']
                      [Txt ''You do not have permissions to make changes to this namespace.'']])
                @ [El ''div'' [cls (''flex-container fill-height-container'' @
                              (if conf \<noteq> None then '' blur'' else []))]
                     [Comp E_Sidebar, if isLoading pg then renderLoading else Comp E_Namespaces,
                      Comp E_SelectedNamespace]]))))"

section \<open>The whole page\<close>

text \<open>The local states: those of the sidebar, the statistics view and each tile.\<close>

record locals =
  l_sidebar :: sidebar_state
  l_stats :: stats_view
  l_tile :: "string \<Rightarrow> tile_state"

text \<open>A field as it is when it appears; what is typed later is in its own state.\<close>

fun target_of :: "edit_target_val \<Rightarrow> string \<Rightarrow> field_target" where
  "target_of (Of_namespace n) k = Namespace_field (to_str n) k"
| "target_of (Of_bucket n b) k = Bucket_field (to_str n) (to_str b) k"

definition mounted_field :: "field_props \<Rightarrow> field_state" where
  "mounted_field p =
     field_constructor (to_str (fp_parent p)) (fp_keyName p)
       (target_of (fp_target p) (fp_keyName p)) (fp_value p)"

fun render_element :: "page \<Rightarrow> locals \<Rightarrow> element \<Rightarrow> vnode list result" where
  "render_element pg l (E_AddField v ph t hc hs) = Inr [AddField_render v ph t hc hs]"
| "render_element pg l (E_Change c ch) = and_then (Change_render c ch) (\<lambda>n. Inr [n])"
| "render_element pg l (E_Changes h) = Inr [Changes_render h]"
| "render_element pg l (E_Config c h) = and_then (Config_render c h) (\<lambda>n. Inr [n])"
| "render_element pg l (E_Configs its) = Configs_render its"
| "render_element pg l (E_Error e) = and_then (Error_render e) (\<lambda>n. Inr [n])"
| "render_element pg l (E_Field p) = Inr [Field_render p (mounted_field p)]"
| "render_element pg l (E_Bucket p) = and_then (Bucket_render p) (\<lambda>n. Inr [n])"
| "render_element pg l (E_NamespaceHeader n c h) =
     and_then (NamespaceHeader_render n c h) (\<lambda>n. Inr [n])"
| "render_element pg l (E_NamespaceTile k p) =
     and_then (NamespaceTile_render p (l_tile l k)) (\<lambda>n. Inr [n])"
| "render_element pg l (E_Namespace n c) = and_then (Namespace_render n c) (\<lambda>n. Inr [n])"
| "render_element pg l (E_Stats n) =
     and_then (Stats_render n (rt_stats (p_state pg)) (l_stats l)) (\<lambda>n. Inr [n])"
| "render_element pg l E_Sidebar = and_then (Sidebar_render pg (l_sidebar l)) (\<lambda>n. Inr [n])"
| "render_element pg l E_Namespaces = and_then (Namespaces_render pg) (\<lambda>n. Inr [n])"
| "render_element pg l E_SelectedNamespace = Inr (SelectedNamespace_render pg)"
| "render_element pg l (E_Confirmation d h b) = Inr [Confirmation_render d h b]"

text \<open>
  Component elements are replaced by what they render, until only DOM elements are left. The
  components nest at most four deep (a field in a bucket in a namespace in the selected namespace),
  and the fuel bounds that depth.
\<close>

fun expand :: "page \<Rightarrow> locals \<Rightarrow> nat \<Rightarrow> vnode \<Rightarrow> vnode list result"
  and expand_all :: "page \<Rightarrow> locals \<Rightarrow> nat \<Rightarrow> vnode list \<Rightarrow> vnode list result"
where
  "expand pg l n (Txt s) = Inr [Txt s]"
| "expand pg l n (El t as cs) = and_then (expand_all pg l n cs) (\<lambda>ds. Inr [El t as ds])"
| "expand pg l 0 (Comp e) = Inl (OutsideModel ''elements nested too deeply'')"
| "expand pg l (Suc n) (Comp e) =
     and_then (render_element pg l e) (\<lambda>vs. expand_all pg l n vs)"
| "expand_all pg l n [] = Inr []"
| "expand_all pg l n (v # vs) =
     and_then (expand pg l n v) (\<lambda>as. and_then (expand_all pg l n vs) (\<lambda>bs. Inr (as @ bs)))"

definition render_page :: "page \<Rightarrow> locals \<Rightarrow> vnode list result" where
  "render_page pg l = and_then (QuotaService_render pg) (\<lambda>v. expand pg l 4 v)"

text \<open>The handlers that the user can trigger: a disabled element triggers none.\<close>

fun attr_handler :: "string \<times> attr \<Rightarrow> handler list" where
  "attr_handler (_, A_on h) = [h]"
| "attr_handler _ = []"

definition attr_handlers :: "(string \<times> attr) list \<Rightarrow> handler list" where
  "attr_handlers as =
     (if map_of as ''disabled'' = Some (A_bool True) then [] else concat (map attr_handler as))"

fun handlers_of :: "vnode \<Rightarrow> handler list" where
  "handlers_of (Txt s) = []"
| "handlers_of (El t as cs) = attr_handlers as @ concat (map handlers_of cs)"
| "handlers_of (Comp e) = []"

section \<open>What the handlers dispatch\<close>

text \<open>
  The handlers that dispatch without local state. \<open>None\<close>: a handler of a component's own state, the
  refresh (see \<open>fetchData\<close>), or a name that is no string.
\<close>

fun handler_item :: "page \<Rightarrow> handler \<Rightarrow> item option" where
  "handler_item pg H_undo = Some (Thk undo_thunk)"
| "handler_item pg H_redo = Some (Thk redo_thunk)"
| "handler_item pg H_commit = Some (Thk (handleCommit pg))"
| "handler_item pg (H_load c) = Some (Thk (loadConfig_thunk c))"
| "handler_item pg (H_select (JStr n) can) = Some (Thk (selectNamespace_thunk (Some n) can))"
| "handler_item pg (H_select JUndef can) = Some (Thk (selectNamespace_thunk None can))"
| "handler_item pg H_select_none = Some (Thk (selectNamespace_thunk None True))"
| "handler_item pg (H_remove_namespace (JStr n)) = Some (Thk (removeNamespace_thunk n))"
| "handler_item pg (H_remove_bucket (JStr n) (JStr b)) = Some (Thk (removeBucket_thunk n b))"
| "handler_item pg H_toggle_stats = Some (Thk toggleStats_thunk)"
| "handler_item pg H_clear_confirm = Some (Thk clearConfirm)"
| "handler_item pg (H_confirm d) = Some (item_of d)"
| "handler_item pg _ = None"

definition trigger_handler :: "environment \<Rightarrow> world \<Rightarrow> handler \<Rightarrow> world" where
  "trigger_handler env w h =
     (if h = H_refresh then fetchData env w
      else case handler_item (Root_mapState env (store w)) h of
             None \<Rightarrow> w
           | Some i \<Rightarrow> handle_event w i)"

section \<open>Expansion\<close>

lemma expand_all_Inr:
  "(\<exists>ds. expand_all pg l n vs = Inr ds) \<longleftrightarrow> (\<forall>v \<in> set vs. \<exists>ds. expand pg l n v = Inr ds)"
  by (induction vs) (auto simp: js_simps)

lemma expand_El_Inr:
  "(\<exists>ds. expand pg l n (El t as cs) = Inr ds) \<longleftrightarrow> (\<forall>v \<in> set cs. \<exists>ds. expand pg l n v = Inr ds)"
  using expand_all_Inr [of pg l n cs] by (auto simp: js_simps)

lemma expand_Comp_Inr:
  "(\<exists>ds. expand pg l (Suc n) (Comp e) = Inr ds) \<longleftrightarrow>
   (\<exists>vs. render_element pg l e = Inr vs \<and> (\<forall>v \<in> set vs. \<exists>ds. expand pg l n v = Inr ds))"
  using expand_all_Inr by (auto simp: js_simps) blast+

lemma map_result_Inr:
  "(\<exists>ys. map_result f xs = Inr ys) \<longleftrightarrow> (\<forall>x \<in> set xs. \<exists>y. f x = Inr y)"
  by (induction xs) (auto simp: js_simps)

lemma map_result_mem:
  "map_result f xs = Inr ys \<Longrightarrow> y \<in> set ys \<Longrightarrow> \<exists>x \<in> set xs. f x = Inr y"
  by (induction xs arbitrary: ys) (auto simp: js_simps)

lemma map_result_ok:
  "(\<And>x. x \<in> set xs \<Longrightarrow> \<exists>y. f x = Inr y \<and> P y) \<Longrightarrow>
   \<exists>ys. map_result f xs = Inr ys \<and> (\<forall>y \<in> set ys. P y)"
proof (induction xs)
  case (Cons x xs)
  then obtain y ys where "f x = Inr y" "P y" "map_result f xs = Inr ys" "\<forall>y \<in> set ys. P y"
    by force
  then show ?case by simp
qed simp

end
