(* ===== verification/World_Steps.thy ===== *)
theory World_Steps
  imports Store
begin

text \<open>
  The interleavings of the page: in each step the user triggers something the UI offers, or one
  waiting task is answered, in any order. The invariants hold in every reachable world.
\<close>

section \<open>What the UI dispatches\<close>

definition configs_types :: "string \<times> string \<times> string" where
  "configs_types = (''CONFIGS_REQUEST'', ''CONFIGS_COMMIT_SUCCESS'', ''CONFIGS_FAILURE'')"

definition stats_types :: "string \<times> string \<times> string" where
  "stats_types = (''STATS_REQUEST'', ''STATS_FETCH_SUCCESS'', ''STATS_FAILURE'')"

definition commit_call :: "rsaa \<Rightarrow> bool" where
  "commit_call r \<longleftrightarrow> types r = configs_types \<and> validateRSAA r"

definition stats_call :: "rsaa \<Rightarrow> bool" where
  "stats_call r \<longleftrightarrow> types r = stats_types \<and> validateRSAA r"

text \<open>The actions that wait for a confirmation.\<close>

fun confirmable :: "dispatchable \<Rightarrow> bool" where
  "confirmable (Plain (REMOVE_NAMESPACE _)) = True"
| "confirmable (Plain (REMOVE_BUCKET _ _)) = True"
| "confirmable (Plain _) = False"
| "confirmable (Call_Api r) = commit_call r"

text \<open>The plain actions that thunks of the UI dispatch at once.\<close>

fun direct_action :: "action \<Rightarrow> bool" where
  "direct_action (ADD_NAMESPACE _) = True"
| "direct_action (UPDATE_NAMESPACE _ _ _) = True"
| "direct_action (ADD_BUCKET _ _) = True"
| "direct_action (UPDATE_BUCKET _ _ _ _) = True"
| "direct_action (SELECT_NAMESPACE _ _) = True"
| "direct_action UNDO = True"
| "direct_action REDO = True"
| "direct_action (LOAD_CONFIG _) = True"
| "direct_action (CONFIRM d _ _) = confirmable d"
| "direct_action CLEAR_CONFIRM = True"
| "direct_action _ = False"

fun ui_thunk :: "thunk \<Rightarrow> bool" where
  "ui_thunk (Dispatches a) = direct_action a"
| "ui_thunk (Runs a) = direct_action a"
| "ui_thunk (Dispatches_api r) = stats_call r"
| "ui_thunk Toggle_stats = True"
| "ui_thunk Fetch_configs = True"
| "ui_thunk (Fetch_capabilities _) = True"

lemma creators_ui_thunk:
  "ui_thunk (addNamespace_thunk n)" "ui_thunk (updateNamespace_thunk n k v)"
  "ui_thunk (removeNamespace_thunk n)" "ui_thunk (addBucket_thunk n b)"
  "ui_thunk (updateBucket_thunk n b k v)" "ui_thunk (removeBucket_thunk n b)"
  "ui_thunk (selectNamespace_thunk sel can)" "ui_thunk undo_thunk" "ui_thunk redo_thunk"
  "ui_thunk (loadConfig_thunk c)" "ui_thunk fetchConfigs_thunk" "ui_thunk (commitConfig_thunk c v)"
  "ui_thunk (fetchStats_thunk n bo)" "ui_thunk toggleStats_thunk"
  "ui_thunk (fetchCapabilities_thunk c)" "ui_thunk clearConfirm"
  by (simp_all add: addNamespace_thunk_def updateNamespace_thunk_def removeNamespace_thunk_def
      addBucket_thunk_def updateBucket_thunk_def removeBucket_thunk_def selectNamespace_thunk_def
      undo_thunk_def redo_thunk_def loadConfig_thunk_def fetchConfigs_thunk_def
      commitConfig_thunk_def fetchStats_thunk_def toggleStats_thunk_def fetchCapabilities_thunk_def
      clearConfirm_def confirm_thunk_def commit_call_def configs_types_def validateRSAA_def
      fetchStatsAction_def Let_def stats_call_def stats_types_def)

section \<open>Steps\<close>

definition initial_world :: world where
  "initial_world = \<lparr> store = initial_root, pending = [], uncaught = [] \<rparr>"

inductive world_step :: "world \<Rightarrow> world \<Rightarrow> bool" where
  trigger: "ui_thunk t \<Longrightarrow> world_step w (handle_event w (Thk t))"
| confirmed: "rt_confirm (store w) = Some (CONFIRM d h b) \<Longrightarrow> world_step w (handle_event w (item_of d))"
| answered: "pending w = xs @ t # ys \<Longrightarrow> answers t ans \<Longrightarrow>
     world_step w (deliver (w\<lparr> pending := xs @ ys \<rparr>) t ans)"
| fetch_data: "world_step w (fetchConfigs_start w follow)"

inductive reachable :: "world \<Rightarrow> bool" where
  start: "reachable initial_world"
| step: "reachable w \<Longrightarrow> world_step w w' \<Longrightarrow> reachable w'"

section \<open>The slices under the root reducer\<close>

fun configs_action :: "action \<Rightarrow> bool" where
  "configs_action (CONFIGS_REQUEST _ _) = True"
| "configs_action (CONFIGS_FETCH_SUCCESS _ _) = True"
| "configs_action (CONFIGS_COMMIT_SUCCESS _ _) = True"
| "configs_action (CONFIGS_FAILURE _ _) = True"
| "configs_action _ = False"

lemma history_other:
  "\<not> edit_action a \<Longrightarrow> \<not> loads_config a \<Longrightarrow> app_action a \<Longrightarrow> a \<noteq> UNDO \<Longrightarrow> a \<noteq> REDO \<Longrightarrow>
   history_reducer namespaces (Some n) a = Inr (n, a)"
  using is_mutable_iff [of a]
  by (cases a) (auto simp: history_reducer_def reduce_def unchanged_def Let_def)

lemma history_action:
  assumes "history_reducer namespaces st a = Inr (n, a')"
  shows "a' = a \<or> edit_action a \<and> edit_action a'"
proof (cases "a = UNDO \<or> a = REDO")
  case True
  then show ?thesis using assms by (auto simp: history_reducer_def Let_def)
next
  case False
  then obtain s where "reduce namespaces s a = Inr (n, a')"
    using assms by (cases a) (auto simp: history_reducer_def Let_def)
  then obtain r where "namespaces (cur s) a = Inr (r, a')"
    by (auto simp: reduce_def js_simps split: if_splits list.splits)
  then show ?thesis using edit_result other_result by (cases "edit_action a") blast+
qed

lemma rootReducer_slices:
  assumes "rootReducer (Some s) a = Inr (s', a')"
  shows "history_reducer namespaces (Some (rt_namespaces s)) a = Inr (rt_namespaces s', a')"
    and "configs (Some (rt_configs s)) a' = Inr (Some (rt_configs s'))"
    and "stats (Some (rt_stats s)) a' = Inr (Some (rt_stats s'))"
    and "currentVersion (Some (rt_currentVersion s)) a' = Inr (rt_currentVersion s')"
    and "rt_confirm s' = confirm (rt_confirm s) a'"
    and "rt_selectedNamespace s' = selectedNamespace (rt_selectedNamespace s) a'"
    and "rt_capabilities s' = capabilities (Some (rt_capabilities s)) a'"
proof -
  note r = assms [unfolded rootReducer_def option.map]
  from r obtain n a1 where h: "history_reducer namespaces (Some (rt_namespaces s)) a = Inr (n, a1)"
    by (cases "history_reducer namespaces (Some (rt_namespaces s)) a") auto
  with r obtain ver where v: "currentVersion (Some (rt_currentVersion s)) a1 = Inr ver"
    by (cases "currentVersion (Some (rt_currentVersion s)) a1") auto
  with r h obtain st where st: "stats (Some (rt_stats s)) a1 = Inr st"
    by (cases "stats (Some (rt_stats s)) a1") auto
  with r h v obtain st' where st': "st = Some st'" by (cases st) auto
  with r h v st obtain cf where cf: "configs (Some (rt_configs s)) a1 = Inr cf"
    by (cases "configs (Some (rt_configs s)) a1") auto
  with r h v st st' obtain cf' where cf': "cf = Some cf'" by (cases cf) auto
  note eq = r [unfolded h v st st' cf cf', simplified]
  show "history_reducer namespaces (Some (rt_namespaces s)) a = Inr (rt_namespaces s', a')"
    "configs (Some (rt_configs s)) a' = Inr (Some (rt_configs s'))"
    "stats (Some (rt_stats s)) a' = Inr (Some (rt_stats s'))"
    "currentVersion (Some (rt_currentVersion s)) a' = Inr (rt_currentVersion s')"
    "rt_confirm s' = confirm (rt_confirm s) a'"
    "rt_selectedNamespace s' = selectedNamespace (rt_selectedNamespace s) a'"
    "rt_capabilities s' = capabilities (Some (rt_capabilities s)) a'"
    using eq h v st st' cf cf' by auto
qed

lemma rootReducer_action:
  "rootReducer (Some s) a = Inr (s', a') \<Longrightarrow> \<not> edit_action a \<Longrightarrow> a' = a"
  using history_action rootReducer_slices(1) by blast

lemma configs_other: "\<not> configs_action a \<Longrightarrow> configs (Some c) a = Inr (Some c)"
  by (cases a) auto

lemma edit_not_configs: "edit_action a \<Longrightarrow> \<not> configs_action a"
  by (cases a) auto

lemma rt_configs_other:
  assumes "rootReducer (Some s) a = Inr (s', a')" "\<not> configs_action a"
  shows "rt_configs s' = rt_configs s"
proof -
  have "\<not> configs_action a'"
    using assms(2) history_action [OF rootReducer_slices(1) [OF assms(1)]] edit_not_configs by auto
  then show ?thesis using rootReducer_slices(2) [OF assms(1)] by (simp add: configs_other)
qed

lemma rt_confirm_other:
  assumes "rootReducer (Some s) a = Inr (s', a')" "\<And>d h b. a \<noteq> CONFIRM d h b"
  shows "rt_confirm s' = None"
proof -
  have "confirm (rt_confirm s) a' = None"
    using assms(2) history_action [OF rootReducer_slices(1) [OF assms(1)]]
    by (cases a') auto
  then show ?thesis using rootReducer_slices(5) [OF assms(1)] by simp
qed

text \<open>The request and failure actions go through every reducer.\<close>

lemma root_configs_actions:
  "rootReducer (Some s) (CONFIGS_REQUEST False JUndef) =
     Inr (s\<lparr> rt_stats := INITIAL_STATS,
             rt_configs := (rt_configs s)\<lparr> cf_inRequest := Some True, cf_error := JNull \<rparr>,
             rt_confirm := None \<rparr>, CONFIGS_REQUEST False JUndef)"
  "rootReducer (Some s) (CONFIGS_REQUEST True e) =
     Inr (s\<lparr> rt_stats := INITIAL_STATS, rt_configs := handleConfigsFailure (rt_configs s) e,
             rt_confirm := None \<rparr>, CONFIGS_REQUEST True e)"
  "rootReducer (Some s) (CONFIGS_FAILURE err e) =
     Inr (s\<lparr> rt_configs := handleConfigsFailure (rt_configs s) e, rt_confirm := None \<rparr>,
          CONFIGS_FAILURE err e)"
  "rootReducer (Some s) (CONFIGS_COMMIT_SUCCESS False v) =
     Inr (s\<lparr> rt_configs := INITIAL_CONFIGS, rt_confirm := None \<rparr>, CONFIGS_COMMIT_SUCCESS False v)"
  "rootReducer (Some s) (CONFIGS_COMMIT_SUCCESS True e) =
     Inr (s\<lparr> rt_configs := handleConfigsFailure (rt_configs s) e, rt_confirm := None \<rparr>,
          CONFIGS_COMMIT_SUCCESS True e)"
  by (simp_all add: rootReducer_def history_other)

lemma fetchConfigs_start_eq:
  "fetchConfigs_start w follow =
     w\<lparr> store := (store w)\<lparr> rt_stats := INITIAL_STATS,
          rt_configs := (rt_configs (store w))\<lparr> cf_inRequest := Some True, cf_error := JNull \<rparr>,
          rt_confirm := None \<rparr>,
        pending := pending w @ [Await_configs follow] \<rparr>"
  by (simp add: fetchConfigs_start_def base_dispatch_def root_configs_actions)

lemma configs_failure_eq:
  "configs_failure w e =
     w\<lparr> store := (store w)\<lparr> rt_configs := handleConfigsFailure (rt_configs (store w)) e,
                             rt_confirm := None \<rparr> \<rparr>"
  by (simp add: configs_failure_def next_async_def base_dispatch_def root_configs_actions)

section \<open>Frame lemmas\<close>

definition confirm_ok :: "action option \<Rightarrow> bool" where
  "confirm_ok c =
     (case c of None \<Rightarrow> True | Some (CONFIRM d _ _) \<Rightarrow> confirmable d | Some _ \<Rightarrow> False)"

fun confirm_payload_ok :: "action \<Rightarrow> bool" where
  "confirm_payload_ok (CONFIRM d _ _) = confirmable d"
| "confirm_payload_ok _ = True"

lemma base_dispatch_configs:
  "\<not> configs_action a \<Longrightarrow> rt_configs (fst (base_dispatch s a)) = rt_configs s"
  using rt_configs_other [of s a]
  by (auto simp: base_dispatch_def split: sum.split)

lemma base_dispatch_confirm:
  assumes "confirm_ok (rt_confirm s)" "confirm_payload_ok a"
  shows "confirm_ok (rt_confirm (fst (base_dispatch s a)))"
proof (cases "rootReducer (Some s) a")
  case (Inl e)
  then show ?thesis using assms(1) by (simp add: base_dispatch_def)
next
  case (Inr r)
  then obtain s' a' where r: "rootReducer (Some s) a = Inr (s', a')" by (cases r) auto
  have "confirm_ok (rt_confirm s')"
  proof (cases "\<exists>d h b. a = CONFIRM d h b")
    case True
    then have "a' = a" using history_action [OF rootReducer_slices(1) [OF r]] by auto
    then show ?thesis
      using True assms(2) rootReducer_slices(5) [OF r] by (auto simp: confirm_ok_def)
  next
    case False
    then show ?thesis using rt_confirm_other [OF r] by (simp add: confirm_ok_def)
  qed
  then show ?thesis using r by (simp add: base_dispatch_def)
qed

lemma next_async_store:
  "store (next_async w a) = fst (base_dispatch (store w) a)" "pending (next_async w a) = pending w"
  by (auto simp: next_async_def throw_uncaught_def base_dispatch_def split: sum.split prod.split)

lemma dispatch_action_store:
  "store (fst (dispatch_action w a)) = fst (base_dispatch (store w) a)"
  "pending (fst (dispatch_action w a)) = pending w"
  by (auto simp: dispatch_action_def base_dispatch_def split: sum.split prod.split)

lemma handle_event_thunk_store:
  "store (handle_event w i) = store (fst (dispatch w i))"
  "pending (handle_event w i) = pending (fst (dispatch w i))"
  by (auto simp: handle_event_def throw_uncaught_def split: prod.split sum.split)

lemma toggle_store:
  "store (fst (run_thunk w Toggle_stats)) = fst (base_dispatch (store w) STATS_TOGGLE)"
  "pending (fst (run_thunk w Toggle_stats)) = pending w"
  by (auto simp: dispatch_action_def base_dispatch_def then_of_def split: sum.split prod.split)

lemma api_start_store:
  assumes "validateRSAA r"
  shows "store (api_start w r) =
           fst (base_dispatch (store w) (api_action (fst (types r)) False JUndef))"
    and "set (pending (api_start w r)) \<subseteq> insert (Await_api r) (set (pending w))"
    and "set (pending w) \<subseteq> set (pending (api_start w r))"
  using assms
  by (auto simp: api_start_def base_dispatch_def throw_uncaught_def split: prod.split sum.split)

lemma fetchCapabilities_start_store:
  "store (fetchCapabilities_start w c) = fst (base_dispatch (store w) (CAPABILITIES_REQUEST c))"
  "set (pending (fetchCapabilities_start w c)) \<subseteq> insert Await_capabilities (set (pending w))"
  "set (pending w) \<subseteq> set (pending (fetchCapabilities_start w c))"
  by (auto simp: fetchCapabilities_start_def base_dispatch_def throw_uncaught_def
      split: prod.split sum.split)

lemma request_types [simp]:
  "api_action (fst stats_types) err v = STATS_REQUEST err v"
  "api_action (fst configs_types) err v = CONFIGS_REQUEST err v"
  by (simp_all add: stats_types_def configs_types_def api_action_def)

section \<open>The loading invariant\<close>

text \<open>A task whose answer ends a request for configurations.\<close>

fun configs_task :: "task \<Rightarrow> bool" where
  "configs_task (Await_configs _) = True"
| "configs_task (Await_api r) = (fst (types r) = ''CONFIGS_REQUEST'')"
| "configs_task _ = False"

fun task_ok :: "task \<Rightarrow> bool" where
  "task_ok (Await_api r) = (commit_call r \<or> stats_call r)"
| "task_ok Then_toggle = False"
| "task_ok _ = True"

definition loading :: "world \<Rightarrow> bool" where
  "loading w \<longleftrightarrow> cf_inRequest (rt_configs (store w)) = Some True"

definition world_ok :: "world \<Rightarrow> bool" where
  "world_ok w \<longleftrightarrow>
     confirm_ok (rt_confirm (store w)) \<and> list_all task_ok (pending w) \<and>
     (loading w \<longrightarrow> list_ex configs_task (pending w))"

lemma world_ok_initial: "world_ok initial_world"
  by (simp add: world_ok_def initial_world_def initial_root_def confirm_ok_def loading_def
      INITIAL_CONFIGS_def)

text \<open>Steps that leave the configuration slice alone and only add harmless tasks.\<close>

lemma world_ok_frame:
  assumes "world_ok w" "rt_configs (store w') = rt_configs (store w)"
    and "confirm_ok (rt_confirm (store w'))"
    and "set (pending w) \<subseteq> set (pending w')" "\<forall>t \<in> set (pending w') - set (pending w). task_ok t"
  shows "world_ok w'"
  using assms by (auto simp: world_ok_def loading_def list_all_iff list_ex_iff)

lemma configs_not_direct: "direct_action a \<Longrightarrow> \<not> configs_action a \<and> confirm_payload_ok a"
  by (cases a) auto

lemma world_ok_base:
  assumes "world_ok w" "store w' = fst (base_dispatch (store w) a)"
    and "\<not> configs_action a" "confirm_payload_ok a"
    and "set (pending w) \<subseteq> set (pending w')" "\<forall>t \<in> set (pending w') - set (pending w). task_ok t"
  shows "world_ok w'"
proof (rule world_ok_frame [OF assms(1)])
  show "rt_configs (store w') = rt_configs (store w)"
    using assms(2,3) by (simp add: base_dispatch_configs)
  show "confirm_ok (rt_confirm (store w'))"
    using assms(1,2,4) by (simp add: base_dispatch_confirm world_ok_def)
qed (use assms in auto)

lemma world_ok_dispatch_action:
  "world_ok w \<Longrightarrow> \<not> configs_action a \<Longrightarrow> confirm_payload_ok a \<Longrightarrow>
   world_ok (fst (dispatch_action w a))"
  by (rule world_ok_base) (auto simp: dispatch_action_store)

lemma world_ok_next_async:
  "world_ok w \<Longrightarrow> \<not> configs_action a \<Longrightarrow> confirm_payload_ok a \<Longrightarrow> world_ok (next_async w a)"
  by (rule world_ok_base) (auto simp: next_async_store)

lemma world_ok_stats_call:
  assumes "world_ok w" "stats_call r"
  shows "world_ok (api_start w r)"
proof (rule world_ok_base [OF assms(1)])
  have r: "validateRSAA r" "types r = stats_types" using assms(2) by (auto simp: stats_call_def)
  show "store (api_start w r) = fst (base_dispatch (store w) (STATS_REQUEST False JUndef))"
    using api_start_store(1) [OF r(1), of w] r(2) by simp
  show "set (pending w) \<subseteq> set (pending (api_start w r))"
    "\<forall>t \<in> set (pending (api_start w r)) - set (pending w). task_ok t"
    using api_start_store(2,3) [OF r(1), of w] assms(2) by auto
qed simp_all

lemma world_ok_commit_call:
  assumes "world_ok w" "commit_call r"
  shows "world_ok (api_start w r)"
proof -
  have r: "validateRSAA r" "types r = configs_types" using assms(2) by (auto simp: commit_call_def)
  then have "pending (api_start w r) = pending w @ [Await_api r]"
    "rt_confirm (store (api_start w r)) = None"
    by (auto simp: api_start_def configs_types_def api_action_def base_dispatch_def
        root_configs_actions)
  then show ?thesis
    using assms r by (auto simp: world_ok_def confirm_ok_def configs_types_def)
qed

lemma world_ok_fetchConfigs_start: "world_ok w \<Longrightarrow> world_ok (fetchConfigs_start w follow)"
  by (auto simp: world_ok_def fetchConfigs_start_eq confirm_ok_def)

lemma world_ok_fetchCapabilities_start:
  assumes "world_ok w"
  shows "world_ok (fetchCapabilities_start w c)"
  using fetchCapabilities_start_store [of w c]
  by (intro world_ok_base [OF assms, of _ "CAPABILITIES_REQUEST c"]) auto

lemma world_ok_thunk:
  assumes "world_ok w" "ui_thunk t"
  shows "world_ok (fst (run_thunk w t))"
proof (cases t)
  case (Dispatches a)
  then show ?thesis
    using assms by (auto intro: world_ok_dispatch_action dest: configs_not_direct)
next
  case (Runs a)
  then show ?thesis
    using assms world_ok_dispatch_action [of w a] configs_not_direct [of a]
    by (auto split: prod.split)
next
  case Toggle_stats
  then show ?thesis
    by (intro world_ok_base [OF assms(1), of _ STATS_TOGGLE])
       (auto simp: toggle_store simp del: run_thunk.simps)
qed (use assms in \<open>auto intro: world_ok_stats_call world_ok_fetchConfigs_start
       world_ok_fetchCapabilities_start\<close>)

lemma world_ok_handle_event:
  "world_ok (fst (dispatch w i)) \<Longrightarrow> world_ok (handle_event w i)"
  by (auto simp: world_ok_def loading_def handle_event_thunk_store)

lemma world_ok_confirmed:
  assumes "world_ok w" "confirmable d"
  shows "world_ok (handle_event w (item_of d))"
proof (rule world_ok_handle_event, cases d)
  case (Plain a)
  then have "\<not> configs_action a" "confirm_payload_ok a" using assms(2) by (cases a; simp)+
  then show "world_ok (fst (dispatch w (item_of d)))"
    using assms(1) Plain by (simp add: world_ok_dispatch_action)
next
  case (Call_Api r)
  then show "world_ok (fst (dispatch w (item_of d)))"
    using assms world_ok_commit_call by simp
qed

text \<open>An answer to a request for configurations always ends the loading state.\<close>

lemma fetchConfigs_finish_configs:
  assumes "answers (Await_configs follow) ans"
  shows "\<not> loading (fst (fetchConfigs_finish w ans)) \<and>
         pending (fst (fetchConfigs_finish w ans)) = pending w \<and>
         rt_confirm (store (fst (fetchConfigs_finish w ans))) = None"
proof (cases ans)
  case (Response ok status reason is_json body)
  show ?thesis
  proof (cases body)
    case (Inl m)
    then show ?thesis
      using Response by (simp add: fetchConfigs_finish_def configs_failure_eq loading_def
          handleConfigsFailure_def)
  next
    case (Inr v)
    show ?thesis
    proof (cases "rootReducer (Some (store w)) (CONFIGS_FETCH_SUCCESS False v)")
      case (Inl e)
      then show ?thesis
        using Response Inr by (simp add: fetchConfigs_finish_def base_dispatch_def
            configs_failure_eq loading_def handleConfigsFailure_def)
    next
      case r: (Inr sa)
      then obtain s' a' where sa: "sa = (s', a')" by (cases sa)
      have a': "a' = CONFIGS_FETCH_SUCCESS False v"
        using rootReducer_action r sa by simp
      have r': "rootReducer (Some (store w)) (CONFIGS_FETCH_SUCCESS False v) = Inr (s', a')"
        using r sa by simp
      have "rt_confirm s' = None" "cf_inRequest (rt_configs s') = None"
        using rootReducer_slices(5) [OF r'] rootReducer_slices(2) [OF r'] a'
        by (auto simp: js_simps INITIAL_CONFIGS_def dest!: sym [of _ "rt_configs s'"])
      then show ?thesis
        using Response Inr r sa by (simp add: fetchConfigs_finish_def base_dispatch_def loading_def)
    qed
  qed
qed (use assms in \<open>auto simp: fetchConfigs_finish_def configs_failure_eq loading_def
       handleConfigsFailure_def\<close>)

lemma api_result_response:
  "types r = (req, succ, fail) \<Longrightarrow> api_result r (Response ok status reason is_json body) = Some a \<Longrightarrow>
   \<exists>err v. a = api_action succ err v \<or> a = api_action fail True v"
  by (cases "getJSON status is_json body") (auto split: if_splits)

lemma api_result_total: "answers (Await_api r) ans \<Longrightarrow> \<exists>a. api_result r ans = Some a"
  by (cases ans; cases "types r") (auto split: sum.split)

lemma api_result_commit:
  assumes "types r = configs_types" "answers (Await_api r) ans"
  shows "\<exists>a err v. api_result r ans = Some a \<and>
           (a = CONFIGS_REQUEST True v \<or> a = CONFIGS_COMMIT_SUCCESS err v \<or> a = CONFIGS_FAILURE True v)"
proof (cases ans)
  case (Network_error m)
  then show ?thesis using assms(1) by (simp add: configs_types_def api_action_def)
next
  case (Response ok status reason is_json body)
  obtain a where a: "api_result r ans = Some a" using api_result_total [OF assms(2)] by blast
  then show ?thesis
    using api_result_response [of r _ _ _ ok status reason is_json body a] assms(1) Response
    by (fastforce simp: configs_types_def api_action_def)
qed (use assms in auto)

lemma deliver_commit:
  assumes "types r = configs_types" "answers (Await_api r) ans"
  shows "\<not> loading (deliver w (Await_api r) ans) \<and>
         pending (deliver w (Await_api r) ans) = pending w \<and>
         rt_confirm (store (deliver w (Await_api r) ans)) = None"
proof -
  obtain a err v where a: "api_result r ans = Some a"
    "a = CONFIGS_REQUEST True v \<or> a = CONFIGS_COMMIT_SUCCESS err v \<or> a = CONFIGS_FAILURE True v"
    using api_result_commit [OF assms] by blast
  then show ?thesis
    by (cases err) (auto simp: next_async_def base_dispatch_def root_configs_actions loading_def
        handleConfigsFailure_def INITIAL_CONFIGS_def)
qed

lemma api_result_stats:
  assumes "types r = stats_types" "api_result r ans = Some a"
  shows "\<not> configs_action a \<and> confirm_payload_ok a"
proof (cases ans)
  case (Response ok status reason is_json body)
  then show ?thesis
    using api_result_response [of r _ _ _ ok status reason is_json body a] assms
    by (auto simp: stats_types_def api_action_def)
qed (use assms in \<open>auto simp: stats_types_def api_action_def\<close>)

lemma loading_fetchCapabilities_start:
  "loading (fetchCapabilities_start w c) = loading w"
  by (simp add: loading_def fetchCapabilities_start_store base_dispatch_configs)

lemma deliver_configs_task:
  assumes "configs_task t" "task_ok t" "answers t ans"
  shows "\<not> loading (deliver w t ans)"
proof (cases t)
  case (Await_configs follow)
  then show ?thesis
    using assms(3) fetchConfigs_finish_configs [of follow ans w]
    by (auto simp: loading_fetchCapabilities_start split: prod.split)
next
  case (Await_api r)
  then have "types r = configs_types"
    using assms(1,2) by (auto simp: commit_call_def stats_call_def stats_types_def)
  then show ?thesis using deliver_commit assms(3) Await_api by blast
qed (use assms in auto)

lemma world_ok_unloaded:
  assumes "list_all task_ok (pending w)" "\<not> loading w" "rt_confirm (store w) = None"
  shows "world_ok w"
  using assms by (simp add: world_ok_def confirm_ok_def)

lemma world_ok_deliver_other:
  assumes "world_ok w" "\<not> configs_task t" "task_ok t" "answers t ans"
  shows "world_ok (deliver w t ans)"
proof (cases t)
  case (Await_api r)
  then have r: "types r = stats_types"
    using assms(2,3) by (auto simp: commit_call_def stats_call_def configs_types_def)
  obtain a where a: "api_result r ans = Some a" using api_result_total assms(4) Await_api by blast
  then show ?thesis
    using api_result_stats [OF r a] assms(1) Await_api by (simp add: world_ok_next_async)
next
  case Await_capabilities
  then show ?thesis
    using assms by (cases ans) (auto intro: world_ok_next_async)
qed (use assms in auto)

lemma world_ok_deliver_configs:
  assumes "list_all task_ok (pending w)" "configs_task t" "task_ok t" "answers t ans"
  shows "world_ok (deliver w t ans)"
proof (cases t)
  case (Await_configs follow)
  obtain w' v where w': "fetchConfigs_finish w ans = (w', v)" by (cases "fetchConfigs_finish w ans")
  then have "world_ok w'"
    using assms(1,4) Await_configs fetchConfigs_finish_configs [of follow ans w]
    by (auto intro: world_ok_unloaded)
  then show ?thesis using Await_configs w' by (simp add: world_ok_fetchCapabilities_start)
next
  case (Await_api r)
  then have "types r = configs_types"
    using assms(2,3) by (auto simp: commit_call_def stats_call_def stats_types_def)
  then show ?thesis
    using deliver_commit [of r ans w] assms(1,4) Await_api
    by (intro world_ok_unloaded) simp_all
qed (use assms in auto)

lemma world_ok_drop:
  assumes "world_ok w" "pending w = xs @ t # ys" "\<not> configs_task t"
  shows "world_ok (w\<lparr> pending := xs @ ys \<rparr>)"
  using assms by (auto simp: world_ok_def loading_def)

lemma world_step_ok: "world_step w w' \<Longrightarrow> world_ok w \<Longrightarrow> world_ok w'"
proof (induction rule: world_step.induct)
  case (trigger t w)
  then show ?case by (intro world_ok_handle_event) (simp add: world_ok_thunk)
next
  case (confirmed w d h b)
  then have "confirmable d" by (simp add: world_ok_def confirm_ok_def)
  then show ?case using confirmed by (simp add: world_ok_confirmed)
next
  case (answered w xs t ys ans)
  have ok: "task_ok t" "list_all task_ok (pending (w\<lparr> pending := xs @ ys \<rparr>))"
    using answered by (auto simp: world_ok_def)
  show ?case
  proof (cases "configs_task t")
    case True
    then show ?thesis using ok answered(2) by (intro world_ok_deliver_configs)
  next
    case False
    then show ?thesis
      using ok answered by (intro world_ok_deliver_other) (auto intro: world_ok_drop)
  qed
next
  case (fetch_data w follow)
  then show ?case by (simp add: world_ok_fetchConfigs_start)
qed

lemma reachable_ok: "reachable w \<Longrightarrow> world_ok w"
  by (induction rule: reachable.induct) (auto simp: world_ok_initial intro: world_step_ok)

end
