(* ===== verification/Edit_Properties.thy ===== *)
theory Edit_Properties
  imports Namespaces_Reducer
begin

text \<open>
  What the edits of the configuration and their history guarantee: every edit writes one path of
  the tree and nothing else, the history is an edit log, undo takes back exactly what an edit did,
  and loading starts a new log. The last section has the inputs on which the code departs from
  this: names that make two change keys equal, and names that are members of every object.
\<close>

section \<open>Configurations and runs of actions\<close>

text \<open>A configuration as the server sends it: its \<open>namespaces\<close> are absent or a tree.\<close>

definition good_namespaces :: "jsval \<Rightarrow> bool" where
  "good_namespaces v \<longleftrightarrow> \<not> truthy v \<or> (is_obj v \<and> config_value v)"

fun good_config :: "jsval \<Rightarrow> bool" where
  "good_config (JObj kvs) =
     (case map_of kvs ''namespaces'' of None \<Rightarrow> True | Some v \<Rightarrow> good_namespaces v)"
| "good_config _ = False"

fun good_payload :: "jsval \<Rightarrow> bool" where
  "good_payload (JObj kvs) =
     (case map_of kvs ''configs'' of
        Some (JArr cs) \<Rightarrow> list_all good_config cs
      | _ \<Rightarrow> False)"
| "good_payload _ = False"

fun good_action :: "action \<Rightarrow> bool" where
  "good_action (LOAD_CONFIG c) = good_config c"
| "good_action (CONFIGS_FETCH_SUCCESS err payload) = good_payload payload"
| "good_action a = (if edit_action a then safe_edit a else app_action a)"

text \<open>Names without a dot, and buckets that do not bear the names of the special fields.\<close>

definition dot_free :: "string \<Rightarrow> bool" where
  "dot_free s \<longleftrightarrow> CHR ''.'' \<notin> set s"

fun unambiguous :: "action \<Rightarrow> bool" where
  "unambiguous (UPDATE_NAMESPACE n k v) = (dot_free n \<and> dot_free k)"
| "unambiguous (UPDATE_BUCKET n (JStr b) k v) =
     (dot_free n \<and> dot_free b \<and> dot_free k \<and>
      b \<noteq> ''default_bucket'' \<and> b \<noteq> ''dynamic_bucket_template'')"
| "unambiguous _ = True"

section \<open>Lemmas\<close>

lemma safe_edit_edits: "safe_edit a \<Longrightarrow> edit_action a"
  by (cases a) auto

lemma safe_edit_mergeable:
  assumes "safe_edit a" "action_type a \<in> set MERGEABLE_CHANGES"
  shows "(\<exists>n k v. a = UPDATE_NAMESPACE n k v) \<or>
         (\<exists>n x k v. a = UPDATE_BUCKET n (JStr x) k v \<and> plain_name x)"
  using assms by (cases a) (auto simp: MERGEABLE_CHANGES_def elim!: plain_bucketE)

lemma good_action_app: "good_action a \<Longrightarrow> app_action a"
  by (cases a) auto

lemma inherited_fields [simp]:
  "inherited ''namespaces'' = JUndef" "inherited ''version'' = JUndef" "inherited ''configs'' = JUndef"
  by (simp_all add: inherited_def object_prototype_def)

lemma config_value_empty: "config_value (JObj [])"
  by (simp add: config_value_def)

lemma good_namespaces_from:
  assumes "good_namespaces v"
  shows "\<exists>t. immutable_from (js_or v (JObj [])) = Inr t \<and> t = js_or v (JObj []) \<and> config_tree t"
proof (cases "truthy v")
  case True
  then show ?thesis
    using assms by (auto simp: good_namespaces_def im_simps config_tree_def config_value_def)
next
  case False
  then show ?thesis by (simp add: im_simps config_value_empty) (simp add: config_tree_def)
qed

lemma loadConfig_good:
  assumes "good_config (JObj kvs)"
  shows "loadConfig (JObj kvs) =
           Inr \<lparr> r_present = \<lparr> items = js_or (prop_of (JObj kvs) ''namespaces'') (JObj []),
                              version = js_or (prop_of (JObj kvs) ''version'') (JNum 0) \<rparr>,
                 r_change = None, r_history = Some no_history \<rparr>"
    and "config_tree (js_or (prop_of (JObj kvs) ''namespaces'') (JObj []))"
proof -
  have "good_namespaces (prop_of (JObj kvs) ''namespaces'')"
    using assms by (auto simp: good_namespaces_def split: option.split)
  then show "config_tree (js_or (prop_of (JObj kvs) ''namespaces'') (JObj []))"
    "loadConfig (JObj kvs) =
       Inr \<lparr> r_present = \<lparr> items = js_or (prop_of (JObj kvs) ''namespaces'') (JObj []),
                          version = js_or (prop_of (JObj kvs) ''version'') (JNum 0) \<rparr>,
             r_change = None, r_history = Some no_history \<rparr>"
    using good_namespaces_from by (auto simp: loadConfig_def get_prop_def)
qed

lemma good_config_obj: "good_config c \<Longrightarrow> \<exists>kvs. c = JObj kvs"
  by (cases c) auto

lemma loadConfig_tree:
  assumes "good_config c" "loadConfig c = Inr r"
  shows "config_tree (items (r_present r))"
proof -
  obtain kvs where c: "c = JObj kvs" using good_config_obj [OF assms(1)] by blast
  note good = loadConfig_good [OF assms(1) [unfolded c]]
  show ?thesis
    using good(2) assms(2) [unfolded c good(1) sum.inject]
    by (metis ns_result.select_convs(1) present.select_convs(1))
qed

lemma array_index_0: "array_index ''0'' = Some 0"
  by (simp add: array_index_def digit_of_def)

lemma good_payload_configs:
  assumes "good_payload payload"
  obtains cs where "payload_configs payload = Inr (JArr cs, cs \<noteq> [])" "list_all good_config cs"
proof -
  obtain kvs cs where "payload = JObj kvs" "map_of kvs ''configs'' = Some (JArr cs)"
    "list_all good_config cs"
    using assms by (cases payload) (auto split: option.splits jsval.splits)
  then show ?thesis using that [of cs] by (simp add: payload_configs_def get_prop_def)
qed

lemma namespaces_keeps_config:
  assumes "good_action a" "config_tree (items p)" "namespaces p a = Inr (r, a')"
  shows "config_tree (items (r_present r))"
proof (cases "edit_action a")
  case True
  then have "safe_edit a" using assms(1) by (cases a) auto
  then show ?thesis using namespaces_keeps_tree assms(2,3) by blast
next
  case False
  show ?thesis
  proof (cases "loads_config a")
    case True
    then consider (load) c where "a = LOAD_CONFIG c"
      | (fetched) err v where "a = CONFIGS_FETCH_SUCCESS err v" by (cases a) auto
    then show ?thesis
    proof cases
      case load
      then show ?thesis using assms loadConfig_tree by (auto simp: js_simps)
    next
      case fetched
      then obtain cs where cs: "payload_configs v = Inr (JArr cs, cs \<noteq> [])" "list_all good_config cs"
        using assms(1) good_payload_configs by auto
      then show ?thesis
        using fetched assms loadConfig_tree
        by (cases cs) (auto simp: js_simps unchanged_def get_prop_def array_index_0)
    qed
  next
    case False
    then have "r_present r = p"
      using assms(3) \<open>\<not> edit_action a\<close> other_result load_result [of a p r a'] by fastforce
    then show ?thesis using assms(2) by simp
  qed
qed

lemma config_tree_initial: "list_all (\<lambda>p. config_tree (items p)) (states (log_of INITIAL_HISTORY))"
  by (simp add: INITIAL_HISTORY_def config_tree_def)

text \<open>Keys joined with dots can be taken apart again when the names have none.\<close>

lemma dot_free_split:
  "dot_free a \<Longrightarrow> dot_free b \<Longrightarrow> a @ ''.'' @ x = b @ ''.'' @ y \<longleftrightarrow> a = b \<and> x = y"
proof (induction a arbitrary: b)
  case Nil
  then show ?case by (cases b) (auto simp: dot_free_def)
next
  case (Cons c a)
  then show ?case by (cases b) (auto simp: dot_free_def)
qed

lemma dot_free_bucket_name: "dot_free b \<Longrightarrow> dot_free (bucket_name b)"
  by (auto simp: bucket_name_def special_key_def dot_free_def)

lemma bucket_name_inj:
  assumes "bucket_name b = bucket_name c"
    and "b \<noteq> ''default_bucket''" "b \<noteq> ''dynamic_bucket_template''"
    and "c \<noteq> ''default_bucket''" "c \<noteq> ''dynamic_bucket_template''"
  shows "b = c"
  using assms by (auto simp: bucket_name_def special_key_def split: if_splits)

lemma change_UPDATE_BUCKET:
  "plain_name b \<Longrightarrow> namespaces p (UPDATE_BUCKET n (JStr b) k v) = Inr (r, a') \<Longrightarrow>
   r_change r = Some \<lparr> c_type = ''UPDATE_BUCKET'', c_key = n @ ''.'' @ bucket_name b @ ''.'' @ k,
                       c_value = v \<rparr>"
  by (auto simp: updateBucket_eq Let_def js_simps edited_def bucket_name_def)

lemma change_UPDATE_NAMESPACE:
  "namespaces p (UPDATE_NAMESPACE n k v) = Inr (r, a') \<Longrightarrow>
   r_change r = Some \<lparr> c_type = ''UPDATE_NAMESPACE'', c_key = n @ ''.'' @ k, c_value = v \<rparr>"
  by (auto simp: updateNamespace_def js_simps edited_def)

lemma change_type: "edit_action a \<Longrightarrow> namespaces p a = Inr (r, a') \<Longrightarrow>
   \<exists>c. r_change r = Some c \<and> c_type c = action_type a"
  by (cases a)
     (auto simp: js_simps addNamespace_def updateNamespace_def removeNamespace_def addBucket_def
       updateBucket_def removeBucket_def Let_def edited_def)

section \<open>Properties of the edits\<close>

text \<open>
  C1: On a well-formed tree, every edit whose names are ordinary either throws a TypeError, exactly
  when it removes a bucket from a namespace that has no such container, or returns a state in
  which the path the edit is about holds exactly what it is meant to hold, every path that parts
  from it is as before, the tree is well formed and the version is kept, with a change of the
  edit's own type and no history.
\<close>

theorem edit_writes_exactly_its_target:
  assumes "config_tree (items p)" "safe_edit a"
  shows "if removes_nowhere (items p) a
         then \<exists>m. namespaces p a = Inl (TypeError m)
         else \<exists>c t a'. namespaces p a =
                  Inr (\<lparr> r_present = p\<lparr> items := t \<rparr>, r_change = Some c, r_history = None \<rparr>, a') \<and>
                c_type c = action_type a \<and> config_tree t \<and>
                lookup_in t (fst (edit_target a)) = snd (edit_target a) \<and>
                (\<forall>x. diverge (fst (edit_target a)) x \<longrightarrow> lookup_in t x = lookup_in (items p) x)"
  using safe_edit_result [OF assms] removes_nowhere_throws [OF assms]
  by (auto simp: writes_at_def edited_def)

text \<open>A configuration with one namespace that has one bucket.\<close>

definition sample :: present where
  "sample =
     \<lparr> items = JObj [(''ns'', JObj [(''buckets'', JObj [(''b'', JObj [(''size'', JNum 5)])]),
                                     (''name'', JStr ''ns'')])],
       version = JNum 3 \<rparr>"

lemma plain_samples [simp]:
  "plain_name ''ns''" "plain_name ''b''" "plain_name ''size''" "plain_name ''other''"
  "plain_name ''___DEFAULT_BUCKET___''" "plain_name ''___DYNAMIC_BUCKET_TPL___''"
  by (simp_all add: plain_name_def safe_key_def immutable_names_def object_prototype_def)

lemma sample_tree [simp]: "config_tree (items sample)"
  by (simp add: sample_def config_tree_def safe_key_def immutable_names_def)

theorem edit_writes_exactly_its_target_witness:
  "config_tree (items sample) \<and>
   safe_edit (UPDATE_BUCKET ''ns'' (JStr ''b'') ''size'' (JNum 7)) \<and>
   (\<exists>c t a'. namespaces sample (UPDATE_BUCKET ''ns'' (JStr ''b'') ''size'' (JNum 7)) =
       Inr (\<lparr> r_present = sample\<lparr> items := t \<rparr>, r_change = Some c, r_history = None \<rparr>, a') \<and>
     lookup_in t [''ns'', ''buckets'', ''b'', ''size''] = Some (JNum 7) \<and>
     lookup_in t [''ns'', ''name''] = Some (JStr ''ns''))"
proof -
  have "diverge [''ns'', ''buckets'', ''b'', ''size''] [''ns'', ''name'']"
    and "lookup_in (items sample) [''ns'', ''name''] = Some (JStr ''ns'')"
    by (simp_all add: sample_def)
  then show ?thesis
    using edit_writes_exactly_its_target
      [of sample "UPDATE_BUCKET ''ns'' (JStr ''b'') ''size'' (JNum 7)"]
    by (fastforce simp: bucket_path_def special_key_def)
qed

text \<open>
  C15: From the initial state, after any sequence of actions whose edits use ordinary names and
  whose loaded configurations are trees, every state the user can reach by undo and redo (the
  present one included) is a well-formed tree, and every entry of the history describes its change.
\<close>

theorem history_states_wf:
  assumes "list_all good_action as" "s = run_actions namespaces INITIAL_HISTORY as"
  shows "labelled s \<and> config_tree (items (cur s)) \<and>
         (\<forall>p \<in> set (states (log_of s)). config_tree (items p))"
proof -
  have app: "list_all app_action as"
    using assms(1) good_action_app by (auto simp: list_all_iff)
  have "list_all (\<lambda>p. config_tree (items p)) (states (log_of s))"
    unfolding assms(2)
  proof (rule ns_history.states_run [OF labelled_initial app _ config_tree_initial])
    fix a p r a' assume "a \<in> set as" "config_tree (items p)" "namespaces p a = Inr (r, a')"
    then show "config_tree (items (r_present r))"
      using assms(1) namespaces_keeps_config by (auto simp: list_all_iff)
  qed
  moreover have "cur s \<in> set (states (log_of s))" by (simp add: log_of_def)
  ultimately show ?thesis
    using ns_history.labelled_run [OF labelled_initial app] assms(2) by (auto simp: list_all_iff)
qed

theorem history_states_wf_witness:
  "\<exists>s. s = run_actions namespaces INITIAL_HISTORY
            [LOAD_CONFIG (JObj [(''namespaces'', items sample)]), ADD_NAMESPACE ''other'', UNDO] \<and>
       config_tree (items (cur s)) \<and>
       (\<forall>p \<in> set (states (log_of s)). config_tree (items p))"
proof -
  have "good_config (JObj [(''namespaces'', items sample)])"
    by (simp add: good_namespaces_def sample_def config_value_def safe_key_def immutable_names_def)
  then show ?thesis
    using history_states_wf [of "[LOAD_CONFIG (JObj [(''namespaces'', items sample)]),
      ADD_NAMESPACE ''other'', UNDO]"]
    by (simp del: run_actions.simps good_config.simps)
qed

section \<open>Properties of the history\<close>

text \<open>
  C2: The history refines the edit log: for any sequence of actions of the application, from the
  initial state, the states, changes and position the history represents are those obtained by
  running the log's own operations (move back, move forward, replace the last edit when it
  changes the same key, cut off and append, start over).
\<close>

theorem history_refines_log:
  assumes "list_all app_action as"
  shows "log_of (run_actions namespaces INITIAL_HISTORY as) =
         fold (\<lambda>a l. log_apply namespaces l a) as
           \<lparr> states = [\<lparr> items = JObj [], version = JUndef \<rparr>], labels = [], pos = 0 \<rparr>"
  using ns_history.log_of_run [OF labelled_initial assms] by (simp add: INITIAL_HISTORY_def)

theorem history_refines_log_witness:
  "list_all app_action [ADD_NAMESPACE ''a'', UNDO] \<and>
   pos (log_of (run_actions namespaces INITIAL_HISTORY [ADD_NAMESPACE ''a'', UNDO])) =
   pos (fold (\<lambda>a l. log_apply namespaces l a) [ADD_NAMESPACE ''a'', UNDO]
     \<lparr> states = [\<lparr> items = JObj [], version = JUndef \<rparr>], labels = [], pos = 0 \<rparr>)"
  using history_refines_log [of "[ADD_NAMESPACE ''a'', UNDO]"]
  by (simp del: run_actions.simps fold.simps)

text \<open>
  C3: Undoing everything: after a configuration is loaded and then edited, undone and redone in
  any way that loads nothing else, with merged and failing edits among them, as many undos as
  there are past entries bring back exactly the loaded state, and no past is left.
\<close>

theorem undo_all_restores_loaded:
  assumes "hist s = no_history" "list_all (\<lambda>a. app_action a \<and> \<not> loads_config a) as"
    and "t = run_actions namespaces s as" "u = (undo ^^ length (past (hist t))) t"
  shows "cur u = cur s \<and> past (hist u) = []"
proof -
  have s: "s = \<lparr> cur = cur s, hist = no_history \<rparr>" using assms(1) by (simp add: ns_state.equality)
  have "labelled s" by (subst s) simp
  moreover have "origin s = cur s" by (subst s) (simp add: origin_def)
  ultimately show ?thesis
    using ns_history.undo_all_run [OF _ assms(2,3)] undo_all(2) [of t] assms(4) by simp
qed

theorem undo_all_restores_loaded_witness:
  "\<exists>t. t = run_actions namespaces \<lparr> cur = sample, hist = no_history \<rparr>
            [ADD_NAMESPACE ''x'', UPDATE_NAMESPACE ''x'' ''size'' (JNum 1), REMOVE_NAMESPACE ''ns''] \<and>
       cur ((undo ^^ length (past (hist t))) t) = sample"
  using undo_all_restores_loaded [of "\<lparr> cur = sample, hist = no_history \<rparr>"
    "[ADD_NAMESPACE ''x'', UPDATE_NAMESPACE ''x'' ''size'' (JNum 1), REMOVE_NAMESPACE ''ns'']"]
  by (simp del: run_actions.simps)

text \<open>
  C9: One undo after an edit that succeeded leads back to the state before it, and redo leads
  forward again to exactly the edited state. If the edit merged with the previous one, the undo
  leads to the state before that one instead, the rest of the past is untouched and the only
  thing left to redo is the merged edit.
\<close>

theorem undo_takes_back_edit:
  assumes "labelled s" "edit_action a" "namespaces (cur s) a = Inr (r, a')"
  shows "let t = apply_action namespaces s a in
         cur t = r_present r \<and> redo (undo t) = t \<and>
         (if merges s (r_change r)
          then cur (undo t) = cur (undo s) \<and> past (hist (undo t)) = past (hist (undo s)) \<and>
               map e_present (future (hist (undo t))) = [r_present r]
          else cur (undo t) = cur s \<and> past (hist (undo t)) = past (hist s))"
proof -
  let ?t = "apply_action namespaces s a"
  have hr: "history_reducer namespaces (Some s) a = reduce namespaces s a"
    using assms(2) by (cases a) (auto simp: history_reducer_def)
  then have cur: "cur ?t = r_present r" and ne: "past (hist ?t) \<noteq> []"
    by (simp_all add: apply_action_def ns_history.reduce_edit_eq [OF assms])
  show ?thesis
    using cur redo_undo [OF ne] ns_history.undo_edit [OF assms] ns_history.undo_merged_edit [OF assms]
    by (simp add: Let_def)
qed

theorem undo_takes_back_edit_witness:
  "\<exists>r a'. namespaces sample (ADD_NAMESPACE ''x'') = Inr (r, a') \<and>
     cur (undo (apply_action namespaces \<lparr> cur = sample, hist = no_history \<rparr> (ADD_NAMESPACE ''x''))) =
       sample"
proof -
  have "safe_edit (ADD_NAMESPACE ''x'')"
    by (simp add: plain_name_def safe_key_def immutable_names_def object_prototype_def)
  then obtain r a' where "namespaces sample (ADD_NAMESPACE ''x'') = Inr (r, a')"
    using safe_edit_result [OF sample_tree, of "ADD_NAMESPACE ''x''"]
    by (auto simp del: namespaces.simps)
  moreover have "\<not> merges \<lparr> cur = sample, hist = no_history \<rparr> c" for c
    by (simp add: merges_def no_history_def)
  ultimately show ?thesis
    using undo_takes_back_edit [of "\<lparr> cur = sample, hist = no_history \<rparr>" "ADD_NAMESPACE ''x''" r a']
    by (auto simp: Let_def simp del: namespaces.simps)
qed

text \<open>
  Undo and redo are inverse to each other wherever they do anything, neither loses or
  rewrites a state or a change of the log, and with nothing to undo (or redo) they change nothing.
\<close>

lemma undo_redo_inverse:
  "(past (hist s) \<noteq> [] \<longrightarrow> redo (undo s) = s) \<and> (future (hist s) \<noteq> [] \<longrightarrow> undo (redo s) = s) \<and>
   (past (hist s) = [] \<longrightarrow> undo s = s) \<and> (future (hist s) = [] \<longrightarrow> redo s = s) \<and>
   states (log_of (undo s)) = states (log_of s) \<and> labels (log_of (undo s)) = labels (log_of s) \<and>
   states (log_of (redo s)) = states (log_of s) \<and> labels (log_of (redo s)) = labels (log_of s)"
  using redo_undo undo_redo
  by (auto simp: log_of_undo log_of_redo log_undo_def log_redo_def)
     (simp_all add: undo_def redo_def)

text \<open>
  Loading a configuration (from the list of versions, or the first one of a fetched list)
  replaces the tree by the configuration's namespaces, takes over its version (0 when it has
  none) and empties the history, whatever was edited before; a fetched list that is empty
  changes nothing.
\<close>

lemma load_starts_over:
  assumes "good_config (JObj kvs)"
  shows "(let t = \<lparr> cur = \<lparr> items = js_or (prop_of (JObj kvs) ''namespaces'') (JObj []),
                           version = js_or (prop_of (JObj kvs) ''version'') (JNum 0) \<rparr>,
                    hist = \<lparr> past = [], future = [] \<rparr> \<rparr>
          in apply_action namespaces s (LOAD_CONFIG (JObj kvs)) = t \<and>
             apply_action namespaces s
               (CONFIGS_FETCH_SUCCESS False (JObj [(''configs'', JArr (JObj kvs # cs))])) = t) \<and>
         apply_action namespaces s (CONFIGS_FETCH_SUCCESS False (JObj [(''configs'', JArr [])])) = s"
proof -
  have "payload_configs (JObj [(''configs'', JArr (JObj kvs # cs))]) =
        Inr (JArr (JObj kvs # cs), True)"
    "payload_configs (JObj [(''configs'', JArr [])]) = Inr (JArr [], False)"
    by (simp_all add: payload_configs_def get_prop_def)
  moreover have "get_prop (JArr (JObj kvs # cs)) ''0'' = Inr (JObj kvs)"
    by (simp add: get_prop_def array_index_0)
  moreover have "\<not> is_mutable (LOAD_CONFIG c)" "\<not> is_mutable (CONFIGS_FETCH_SUCCESS e v)" for c e v
    by (simp_all add: is_mutable_iff)
  ultimately show ?thesis
    by (simp add: Let_def apply_action_def history_reducer_def reduce_def unchanged_def no_history_def
        loadConfig_good(1) [OF assms] del: prop_of.simps)
qed

section \<open>Merging\<close>

text \<open>
  C20: Only edits of the same field merge: if two edits with ordinary names that contain no dot (and
  no bucket named like one of the two special fields) give changes that the history merges, they
  are about the same path of the tree. So one undo takes back edits of one field only.
\<close>

theorem merged_edits_same_field:
  assumes "safe_edit a" "safe_edit b" "unambiguous a" "unambiguous b"
    and "namespaces p a = Inr (r, a')" "namespaces q b = Inr (r', b')"
    and "changesMergeable (r_change r) (r_change r') = Inr True"
  shows "fst (edit_target a) = fst (edit_target b)"
proof -
  have "edit_action a" "edit_action b" using assms(1,2) safe_edit_edits by auto
  then obtain c d where c: "r_change r = Some c" "c_type c = action_type a"
    and d: "r_change r' = Some d" "c_type d = action_type b"
    using change_type [OF _ assms(5)] change_type [OF _ assms(6)] by blast
  then have ty: "action_type a = action_type b" "action_type b \<in> set MERGEABLE_CHANGES"
    and key: "c_key c = c_key d"
    using assms(7) by (auto simp: changesMergeable_Some)
  then consider (ns) n k v n' k' v'
      where "a = UPDATE_NAMESPACE n k v" "b = UPDATE_NAMESPACE n' k' v'"
    | (bucket) n x k v n' x' k' v' where "a = UPDATE_BUCKET n (JStr x) k v"
        "b = UPDATE_BUCKET n' (JStr x') k' v'" "plain_name x" "plain_name x'"
    using safe_edit_mergeable [OF assms(1)] safe_edit_mergeable [OF assms(2)] ty by fastforce
  then show ?thesis
  proof cases
    case ns
    then show ?thesis
      using key c d assms(3-6) dot_free_split [of n n' k k']
      by (auto dest!: change_UPDATE_NAMESPACE simp del: namespaces.simps)
  next
    case bucket
    then have "n @ ''.'' @ bucket_name x @ ''.'' @ k = n' @ ''.'' @ bucket_name x' @ ''.'' @ k'"
      using key c d assms(5,6) change_UPDATE_BUCKET [of x p n k v r a']
        change_UPDATE_BUCKET [of x' q n' k' v' r' b'] by (simp del: namespaces.simps)
    then have "n = n' \<and> bucket_name x = bucket_name x' \<and> k = k'"
      using bucket assms(3,4) dot_free_split [of n n'] dot_free_bucket_name
        dot_free_split [of "bucket_name x" "bucket_name x'" k k'] by simp
    then show ?thesis using bucket assms(3,4) bucket_name_inj [of x x'] by simp
  qed
qed

theorem merged_edits_same_field_witness:
  "\<exists>r a' r' b'.
     namespaces sample (UPDATE_NAMESPACE ''ns'' ''size'' (JNum 1)) = Inr (r, a') \<and>
     namespaces sample (UPDATE_NAMESPACE ''ns'' ''size'' (JNum 12)) = Inr (r', b') \<and>
     changesMergeable (r_change r) (r_change r') = Inr True \<and>
     fst (edit_target (UPDATE_NAMESPACE ''ns'' ''size'' (JNum 1))) =
     fst (edit_target (UPDATE_NAMESPACE ''ns'' ''size'' (JNum 12)))"
proof -
  let ?a = "UPDATE_NAMESPACE ''ns'' ''size'' (JNum 1)"
  let ?b = "UPDATE_NAMESPACE ''ns'' ''size'' (JNum 12)"
  have ok: "safe_edit ?a" "safe_edit ?b" "unambiguous ?a" "unambiguous ?b"
    by (simp_all add: dot_free_def)
  obtain r a' r' b' where ra: "namespaces sample ?a = Inr (r, a')"
    and rb: "namespaces sample ?b = Inr (r', b')"
    using safe_edit_result [OF sample_tree ok(1)] safe_edit_result [OF sample_tree ok(2)]
    by (auto simp del: namespaces.simps)
  moreover from this have "changesMergeable (r_change r) (r_change r') = Inr True"
    using change_UPDATE_NAMESPACE [OF ra] change_UPDATE_NAMESPACE [OF rb]
    by (simp add: changesMergeable_Some MERGEABLE_CHANGES_def)
  ultimately show ?thesis
    using merged_edits_same_field [OF ok ra rb] by blast
qed

text \<open>The two edits below are about different buckets of different namespaces.\<close>

definition dotted_edits :: "action list" where
  "dotted_edits =
     [UPDATE_BUCKET ''a'' (JStr ''b.c'') ''size'' (JNum 1),
      UPDATE_BUCKET ''a.b'' (JStr ''c'') ''size'' (JNum 2)]"


section \<open>Adding and removing\<close>

lemma filter_absent_key: "k \<notin> fst ` set kvs \<Longrightarrow> filter (\<lambda>kv. fst kv \<noteq> k) kvs = kvs"
  by (induction kvs) auto

lemma add_remove_namespace:
  assumes "config_tree (items p)" "plain_name n" "lookup_in (items p) [n] = None"
  shows "\<exists>r r'. namespaces p (ADD_NAMESPACE n) = Inr (r, ADD_NAMESPACE n) \<and>
           namespaces (r_present r) (REMOVE_NAMESPACE n) = Inr (r', REMOVE_NAMESPACE n) \<and>
           r_present r' = p"
proof -
  let ?v = "JObj [(''buckets'', JObj []), (''name'', JStr n)]"
  obtain kvs where kvs: "items p = JObj kvs" "wf_props kvs" using assms(1) wf_props_items by blast
  have new: "n \<notin> fst ` set kvs"
    using assms(3) kvs by (auto simp: map_of_eq_None_iff split: option.splits)
  have put: "put_prop kvs n ?v = kvs @ [(n, ?v)]"
    using new assms(2) by (intro put_prop_new) (auto simp: plain_name_def safe_key_def)
  have wf: "wf_props (kvs @ [(n, ?v)])"
    unfolding put [symmetric] using kvs assms(2)
    by (intro wf_props_put_prop) (auto simp: safe_key_def immutable_names_def plain_name_def)
  have "filter (\<lambda>kv. fst kv \<noteq> n) kvs = kvs" using new by (rule filter_absent_key)
  then show ?thesis
    using kvs assms(1,2) wf put
    by (auto simp: addNamespace_eq config_tree_is_obj call_setIn_tree removeNamespace_eq edited_def)
qed

lemma add_remove_bucket:
  assumes "config_tree (items p)" "plain_name n" "plain_name b"
    and "lookup_in (items p) (bucket_parent n b) = Some (JObj sub)" "map_of sub (bucket_name b) = None"
  shows "\<exists>r r' a'. namespaces p (ADD_BUCKET n (JStr b)) = Inr (r, ADD_BUCKET n (JStr b)) \<and>
           namespaces (r_present r) (REMOVE_BUCKET n (JStr b)) = Inr (r', a') \<and> r_present r' = p"
proof -
  let ?v = "JObj [(''name'', JStr b), (''namespace'', JStr n)]"
  let ?q = "bucket_parent n b" and ?k = "bucket_name b"
  obtain kvs where kvs: "items p = JObj kvs" "wf_props kvs" using assms(1) wf_props_items by blast
  have plain: "plain_name ?k"
    using assms(3) special_key_Some [of b] by (auto simp: bucket_name_def split: option.split)
  have new: "?k \<notin> fst ` set sub" using assms(5) by (simp add: map_of_eq_None_iff)
  have put: "put_prop sub ?k ?v = sub @ [(?k, ?v)]"
    using new plain by (intro put_prop_new) (auto simp: plain_name_def safe_key_def)
  have at: "set_at kvs (?q @ [?k]) ?v = set_at kvs ?q (JObj (sub @ [(?k, ?v)]))"
    using assms(4) kvs put by (subst set_at_append [where sub = sub]) auto
  have path: "config_path ?q" "config_path (?q @ [?k])"
    using assms(2,3) by (simp_all add: bucket_path_parent [symmetric])
  have wf: "wf_props (set_at kvs (?q @ [?k]) ?v)"
    using kvs path(2) by (intro wf_set_at) (auto simp: config_path_def safe_key_def immutable_names_def)
  have "filter (\<lambda>kv. fst kv \<noteq> ?k) sub = sub" using new by (rule filter_absent_key)
  then have "remove_in (JObj (set_at kvs (?q @ [?k]) ?v)) ?q ?k = Inr (JObj kvs)"
    using wf path(1) assms(4) kvs
    by (simp add: at remove_in_tree im_simps set_at_twice set_at_same)
  then show ?thesis
    using kvs path(2)
    by (auto simp: addBucket_eq [OF assms(3)] removeBucket_eq [OF assms(3)] bucket_path_parent
        call_setIn_tree edited_def)
qed

text \<open>
  C27: Adding a namespace that does not exist and removing it again gives back exactly the state
  before, and so does adding and removing a bucket, ordinary or special, that the namespace does
  not have yet.
\<close>

theorem add_then_remove_restores:
  assumes "config_tree (items p)" "plain_name n" "plain_name b"
  shows "(lookup_in (items p) [n] = None \<longrightarrow>
           (\<exists>r r'. namespaces p (ADD_NAMESPACE n) = Inr (r, ADD_NAMESPACE n) \<and>
              namespaces (r_present r) (REMOVE_NAMESPACE n) = Inr (r', REMOVE_NAMESPACE n) \<and>
              r_present r' = p)) \<and>
         (\<forall>sub. lookup_in (items p) (bucket_parent n b) = Some (JObj sub) \<and>
                map_of sub (bucket_name b) = None \<longrightarrow>
           (\<exists>r r' a'. namespaces p (ADD_BUCKET n (JStr b)) = Inr (r, ADD_BUCKET n (JStr b)) \<and>
              namespaces (r_present r) (REMOVE_BUCKET n (JStr b)) = Inr (r', a') \<and>
              r_present r' = p))"
  using add_remove_namespace [OF assms(1,2)] add_remove_bucket [OF assms] by blast

theorem add_then_remove_restores_witness:
  "(\<exists>r r'. namespaces sample (ADD_NAMESPACE ''other'') = Inr (r, ADD_NAMESPACE ''other'') \<and>
      namespaces (r_present r) (REMOVE_NAMESPACE ''other'') = Inr (r', REMOVE_NAMESPACE ''other'') \<and>
      r_present r' = sample) \<and>
   (\<exists>r r' a'. namespaces sample (ADD_BUCKET ''ns'' (JStr ''___DEFAULT_BUCKET___'')) =
        Inr (r, ADD_BUCKET ''ns'' (JStr ''___DEFAULT_BUCKET___'')) \<and>
      namespaces (r_present r) (REMOVE_BUCKET ''ns'' (JStr ''___DEFAULT_BUCKET___'')) = Inr (r', a') \<and>
      r_present r' = sample)"
proof -
  have "lookup_in (items sample) [''other''] = None"
    and "lookup_in (items sample) (bucket_parent ''ns'' ''___DEFAULT_BUCKET___'') =
      Some (JObj [(''buckets'', JObj [(''b'', JObj [(''size'', JNum 5)])]), (''name'', JStr ''ns'')])"
    by (simp_all add: sample_def bucket_parent_def special_key_def)
  then show ?thesis
    using add_then_remove_restores [of sample "''other''" "''b''"]
      add_then_remove_restores [of sample "''ns''" "''___DEFAULT_BUCKET___''"]
    by (simp add: bucket_name_def special_key_def del: namespaces.simps)
qed

section \<open>Names that every object has\<close>

lemma filter_native_all: "f = ''toString'' \<or> f = ''Object'' \<Longrightarrow> filter_native f kvs = Inr []"
  by (induction kvs) (auto simp: native_predicate_def)

text \<open>
  C36: A bucket called constructor or toString is looked up in the table of special buckets and found
  there, among the members every object inherits. Removing it does not remove that bucket: it
  empties the whole namespace, its other buckets and its settings included.
\<close>

theorem remove_inherited_name_wipes:
  assumes "config_tree (items p)" "plain_name n" "lookup_in (items p) [n] = Some (JObj sub)"
    and "b = ''constructor'' \<or> b = ''toString''"
  shows "\<exists>r a'. namespaces p (REMOVE_BUCKET n (JStr b)) = Inr (r, a') \<and>
           lookup_in (items (r_present r)) [n] = Some (JObj [])"
proof -
  obtain kvs where kvs: "items p = JObj kvs" "wf_props kvs" using assms(1) wf_props_items by blast
  then have n: "map_of kvs n = Some (JObj sub)" using assms(3) by (auto split: option.splits)
  then have sub: "wf_props sub" and path: "get_path (JObj kvs) [n] = JObj sub"
    using kvs(2) wf_props_map_of [of kvs n] by (auto simp: get_path_def im_simps)
  have "call_without (JObj sub) (bucketKey_of (JStr b)) = Inr (JObj [])"
    using assms(4) sub
    by (auto simp: bucketKey_of_def BUCKET_KEY_MAP_def inherited_def object_prototype_def
        call_without_def on_object_def im_without_def im_simps filter_native_all
        make_immutable_object_def)
  moreover have "truthy (bucketKey_of (JStr b))"
    using assms(4) by (auto simp: bucketKey_of_def BUCKET_KEY_MAP_def inherited_def object_prototype_def)
  ultimately show ?thesis
    using kvs assms(2) path
    by (auto simp: removeBucket_def Let_def call_updateIn_def on_object_def im_updateIn_def im_simps
        js_simps safe_key_def dest: plain_name_safe)
qed

theorem remove_inherited_name_wipes_witness:
  "\<exists>r a'. namespaces sample (REMOVE_BUCKET ''ns'' (JStr ''constructor'')) = Inr (r, a') \<and>
     lookup_in (items sample) [''ns'', ''buckets'', ''b'', ''size''] = Some (JNum 5) \<and>
     lookup_in (items (r_present r)) [''ns''] = Some (JObj [])"
  using remove_inherited_name_wipes [of sample "''ns''" _ "''constructor''"]
  by (auto simp: sample_def config_tree_def safe_key_def immutable_names_def
      simp del: namespaces.simps)

text \<open>
  C37: Updating a special bucket overwrites the bucket name in the action object that was dispatched:
  the same object dispatched a second time writes to an ordinary bucket with the special field's
  name, besides the special bucket itself.
\<close>

theorem update_special_bucket_not_repeatable:
  assumes "config_tree (items p)" "plain_name n" "plain_name k" "config_value v"
    and "special_key b = Some f"
  shows "\<exists>r a' r2 a2. namespaces p (UPDATE_BUCKET n (JStr b) k v) = Inr (r, a') \<and>
           namespaces (r_present r) a' = Inr (r2, a2) \<and>
           lookup_in (items (r_present r)) [n, f, k] = Some v \<and>
           lookup_in (items (r_present r2)) [n, ''buckets'', f, k] = Some v"
proof -
  have b: "plain_name b" "bucket_name b = f" "bucket_path n b = [n, f]"
    using assms(5) by (auto simp: special_key_def bucket_name_def bucket_path_def split: if_splits)
  have f: "plain_name f" "bucket_path n f = [n, ''buckets'', f]" "bucket_name f = f"
    using assms(5) special_key_Some [of b f]
    by (auto simp: special_key_def bucket_path_def bucket_name_def split: if_splits)
  obtain t where t: "updateBucket p n (JStr b) k v =
      Inr (edited p \<lparr> c_type = ''UPDATE_BUCKET'', c_key = n @ ''.'' @ f @ ''.'' @ k, c_value = v \<rparr> t,
           UPDATE_BUCKET n (JStr f) k v)" "writes_at (items p) [n, f, k] (Some v) t"
    using updateBucket_spec [OF assms(1,2) b(1) assms(3,4)] b by auto
  let ?q = "p\<lparr> items := t \<rparr>"
  obtain u where "updateBucket ?q n (JStr f) k v =
      Inr (edited ?q \<lparr> c_type = ''UPDATE_BUCKET'', c_key = n @ ''.'' @ f @ ''.'' @ k, c_value = v \<rparr> u,
           UPDATE_BUCKET n (JStr f) k v)" "writes_at t [n, ''buckets'', f, k] (Some v) u"
    using updateBucket_spec [OF _ assms(2) f(1) assms(3,4), of ?q] t(2) f by (auto simp: writes_at_def)
  then show ?thesis using t by (auto simp: edited_def writes_at_def)
qed

theorem update_special_bucket_not_repeatable_witness:
  "special_key ''___DEFAULT_BUCKET___'' = Some ''default_bucket'' \<and>
   (\<exists>r a' r2 a2.
      namespaces sample (UPDATE_BUCKET ''ns'' (JStr ''___DEFAULT_BUCKET___'') ''size'' (JNum 9)) =
        Inr (r, a') \<and>
      namespaces (r_present r) a' = Inr (r2, a2) \<and>
      lookup_in (items (r_present r2)) [''ns'', ''buckets'', ''default_bucket'', ''size''] =
        Some (JNum 9))"
  using update_special_bucket_not_repeatable
    [of sample "''ns''" "''size''" "JNum 9" "''___DEFAULT_BUCKET___''" "''default_bucket''"]
  by (auto simp: special_key_def simp del: namespaces.simps)

end
