(* ===== verification/Store_Properties.thy ===== *)
theory Store_Properties
  imports World_Steps Edit_Properties
begin

text \<open>
  What the store guarantees while requests are under way: the effect of each thunk and of each
  answer on the slices, the confirmation of destructive actions, and the loading state over all
  interleavings.
\<close>

section \<open>Confirmation\<close>

lemma run_confirm:
  "run_thunk w (Dispatches (CONFIRM d h b)) =
     (w\<lparr> store := (store w)\<lparr> rt_confirm := Some (CONFIRM d h b) \<rparr> \<rparr>, Inr (Ret_action (CONFIRM d h b)))"
  by (simp add: dispatch_action_def base_dispatch_def rootReducer_def history_other)

text \<open>
  Removing a namespace, removing a bucket and saving only ask: running these creators puts the
  action and its texts into the confirmation slice and changes nothing else; no request is sent.
\<close>

lemma destructive_actions_ask:
  "store (handle_event w (Thk (removeNamespace_thunk n))) = (store w)\<lparr> rt_confirm := Some
     (CONFIRM (Plain (REMOVE_NAMESPACE n)) (''You are about to remove the '' @ n @ '' namespace.'') None) \<rparr> \<and>
   store (handle_event w (Thk (removeBucket_thunk n b))) = (store w)\<lparr> rt_confirm := Some
     (CONFIRM (Plain (REMOVE_BUCKET n (JStr b)))
       (''You are about to remove the '' @ n @ ''.'' @ b @ '' bucket.'') None) \<rparr> \<and>
   store (handle_event w (Thk (commitConfig_thunk t ver))) = (store w)\<lparr> rt_confirm := Some
     (CONFIRM (Call_Api
        \<lparr> endpoint = ''/api'', method_name = ''POST'',
          headers = [(''Content-Type'', ''application/json''), (''Version'', to_str ver)],
          body_text = json_stringify (JObj [(''namespaces'', t)]), credentials = ''same-origin'',
          types = configs_types \<rparr>)
       ''You are about to submit the following configuration.'' (json_stringify4 t)) \<rparr> \<and>
   pending (handle_event w (Thk (removeNamespace_thunk n))) = pending w \<and>
   pending (handle_event w (Thk (removeBucket_thunk n b))) = pending w \<and>
   pending (handle_event w (Thk (commitConfig_thunk t ver))) = pending w"
  by (simp add: handle_event_thunk_store removeNamespace_thunk_def removeBucket_thunk_def
      commitConfig_thunk_def confirm_thunk_def run_confirm configs_types_def del: run_thunk.simps)

text \<open>
  In every reachable state the confirmation slice is empty or holds one of the three destructive
  actions (so what the dialog's button dispatches is always one the user was asked about), and any
  action other than a new question closes the dialog, whoever dispatched it.
\<close>

lemma confirmation_holds_only_questions:
  assumes "reachable w"
  shows "(rt_confirm (store w) = None \<or>
          (\<exists>d h b. rt_confirm (store w) = Some (CONFIRM d h b) \<and> confirmable d)) \<and>
         (\<forall>a s' a'. rootReducer (Some (store w)) a = Inr (s', a') \<and>
             (\<forall>d h b. a \<noteq> CONFIRM d h b) \<longrightarrow> rt_confirm s' = None)"
proof -
  have "confirm_ok (rt_confirm (store w))" using reachable_ok [OF assms] by (simp add: world_ok_def)
  then show ?thesis
    using rt_confirm_other [of "store w"]
    by (auto simp: confirm_ok_def split: option.splits action.splits)
qed

section \<open>Statistics\<close>

text \<open>
  C34: Opening the statistics never requests them: the handler flips the flag and closes the dialog,
  and then throws a TypeError, because dispatching a plain action returns that action and not a
  promise; nothing is sent.
\<close>

theorem toggleStats_throws:
  "dispatch w (Thk toggleStats_thunk) =
     (w\<lparr> store := (store w)\<lparr> rt_stats := (rt_stats (store w))\<lparr> st_show := \<not> st_show (rt_stats (store w)) \<rparr>,
                              rt_confirm := None \<rparr> \<rparr>,
      Inl (TypeError ''dispatch(...).then is not a function''))"
  by (simp add: toggleStats_thunk_def dispatch_action_def base_dispatch_def rootReducer_def
      history_other then_of_def Let_def)

text \<open>
  The callback that would request the statistics is never waiting, in any reachable state, and
  every request under way is a commit or a statistics request, or one of the two loads.
\<close>

lemma toggle_callback_never_waits:
  assumes "reachable w" "t \<in> set (pending w)"
  shows "t \<noteq> Then_toggle \<and>
         (\<forall>r. t = Await_api r \<longrightarrow> (types r = configs_types \<or> types r = stats_types) \<and> validateRSAA r)"
  using reachable_ok [OF assms(1)] assms(2)
  by (cases t) (auto simp: world_ok_def list_all_iff commit_call_def stats_call_def)

section \<open>Loading\<close>

text \<open>
  The page never hangs in the loading state: in every reachable state that shows it, some
  request is under way whose answer, whatever it is and whenever it comes, ends the loading state.
\<close>

lemma loading_ends:
  assumes "reachable w" "loading w"
  shows "\<exists>xs t ys. pending w = xs @ t # ys \<and>
           (\<forall>ans. answers t ans \<longrightarrow> \<not> loading (deliver (w\<lparr> pending := xs @ ys \<rparr>) t ans))"
proof -
  have ok: "world_ok w" using reachable_ok [OF assms(1)] .
  then obtain t where t: "t \<in> set (pending w)" "configs_task t" "task_ok t"
    using assms(2) by (auto simp: world_ok_def list_ex_iff list_all_iff)
  then obtain xs ys where "pending w = xs @ t # ys" by (meson split_list)
  then show ?thesis using deliver_configs_task [OF t(2,3)] by blast
qed

section \<open>Answers to a load\<close>

lemma truthy_errors: "truthy (error_value e)" "truthy (error_object n m)"
  by (cases e; simp add: error_object_def) (simp add: error_object_def)

lemma fetch_success_slices:
  assumes "rootReducer (Some s) (CONFIGS_FETCH_SUCCESS False v) = Inr (s', a')"
  shows "\<exists>cs. get_prop v ''configs'' = Inr cs \<and> \<not> nullish cs \<and>
           rt_configs s' = \<lparr> cf_inRequest = None, cf_error = JUndef, cf_items = cs \<rparr> \<and>
           rt_selectedNamespace s' = rt_selectedNamespace s \<and> rt_stats s' = rt_stats s \<and>
           rt_confirm s' = None"
proof -
  have a': "a' = CONFIGS_FETCH_SUCCESS False v" using rootReducer_action [OF assms] by simp
  note slices = rootReducer_slices [OF assms, unfolded a']
  obtain cs where cs: "get_prop v ''configs'' = Inr cs"
    "rt_configs s' = \<lparr> cf_inRequest = None, cf_error = JUndef, cf_items = cs \<rparr>"
    using slices(2) by (auto simp: js_simps INITIAL_CONFIGS_def)
  moreover have "\<not> nullish cs"
    using slices(4) cs(1) by (auto simp: payload_configs_def js_simps get_prop_def split: if_splits)
  ultimately show ?thesis using slices(3,5,6) by auto
qed

lemma fetch_finish_cases:
  assumes "answers (Await_configs follow) ans" "fetchConfigs_finish w ans = (w', v)"
  shows "(truthy v \<and>
          w' = w\<lparr> store := (store w)\<lparr> rt_configs := (rt_configs (store w))\<lparr> cf_inRequest := Some False,
                      cf_error := v \<rparr>, rt_confirm := None \<rparr> \<rparr>) \<or>
         (\<exists>ok status reason is_json cs. ans = Response ok status reason is_json (Inr v) \<and>
            get_prop v ''configs'' = Inr cs \<and> \<not> nullish cs \<and>
            rt_configs (store w') = \<lparr> cf_inRequest = None, cf_error = JUndef, cf_items = cs \<rparr> \<and>
            rt_selectedNamespace (store w') = rt_selectedNamespace (store w) \<and>
            rt_stats (store w') = rt_stats (store w) \<and>
            pending w' = pending w \<and> uncaught w' = uncaught w)"
proof (cases "\<exists>ok status reason is_json x s' a'. ans = Response ok status reason is_json (Inr x) \<and>
    rootReducer (Some (store w)) (CONFIGS_FETCH_SUCCESS False x) = Inr (s', a')")
  case True
  then show ?thesis
    using assms(2) fetch_success_slices
    by (fastforce simp: fetchConfigs_finish_def base_dispatch_def)
next
  case False
  have "truthy v \<and> w' = configs_failure w v"
  proof (cases ans)
    case (Response ok status reason is_json body)
    then show ?thesis
      using False assms(2) truthy_errors
      by (cases body; cases "rootReducer (Some (store w)) (CONFIGS_FETCH_SUCCESS False (projr body))")
         (auto simp: fetchConfigs_finish_def base_dispatch_def)
  qed (use assms truthy_errors in \<open>auto simp: fetchConfigs_finish_def\<close>)
  then show ?thesis by (simp add: configs_failure_eq handleConfigsFailure_def)
qed



text \<open>
  When a readable list of configurations arrives, the tree becomes the first configuration's
  namespaces with an empty history, and the version shown for the tree and the current version
  (the one a later save is sent with) are the same. The status of the response plays no part.
\<close>

lemma fetch_loads_first_config:
  assumes "map_of pk ''configs'' = Some (JArr (JObj kvs # cs))" "good_config (JObj kvs)"
    and "fetchConfigs_finish w (Response ok status reason is_json (Inr (JObj pk))) = (w', v)"
  shows "let ver = js_or (prop_of (JObj kvs) ''version'') (JNum 0) in
         w' = w\<lparr> store := (store w)\<lparr>
           rt_namespaces := \<lparr> cur = \<lparr> items = js_or (prop_of (JObj kvs) ''namespaces'') (JObj []),
                                     version = ver \<rparr>,
                             hist = \<lparr> past = [], future = [] \<rparr> \<rparr>,
           rt_currentVersion := ver,
           rt_configs := \<lparr> cf_inRequest = None, cf_error = JUndef, cf_items = JArr (JObj kvs # cs) \<rparr>,
           rt_confirm := None \<rparr> \<rparr>"
proof -
  let ?a = "CONFIGS_FETCH_SUCCESS False (JObj pk)"
  have pc: "payload_configs (JObj pk) = Inr (JArr (JObj kvs # cs), True)"
    "get_prop (JArr (JObj kvs # cs)) ''0'' = Inr (JObj kvs)"
    "get_prop (JObj pk) ''configs'' = Inr (JArr (JObj kvs # cs))"
    using assms(1) by (simp_all add: payload_configs_def get_prop_def array_index_0)
  have "\<not> is_mutable ?a" by (simp add: is_mutable_iff)
  then have h: "history_reducer namespaces (Some ns) ?a =
     Inr (\<lparr> cur = \<lparr> items = js_or (prop_of (JObj kvs) ''namespaces'') (JObj []),
                   version = js_or (prop_of (JObj kvs) ''version'') (JNum 0) \<rparr>,
           hist = \<lparr> past = [], future = [] \<rparr> \<rparr>, ?a)" for ns
    by (simp add: history_reducer_def reduce_def pc loadConfig_good(1) [OF assms(2)] no_history_def
        del: prop_of.simps)
  have ver: "currentVersion st ?a = Inr (js_or (prop_of (JObj kvs) ''version'') (JNum 0))" for st
    by (simp add: pc) (simp add: get_prop_def)
  have "rootReducer (Some (store w)) ?a = Inr ((store w)\<lparr>
           rt_namespaces := \<lparr> cur = \<lparr> items = js_or (prop_of (JObj kvs) ''namespaces'') (JObj []),
                                     version = js_or (prop_of (JObj kvs) ''version'') (JNum 0) \<rparr>,
                             hist = \<lparr> past = [], future = [] \<rparr> \<rparr>,
           rt_currentVersion := js_or (prop_of (JObj kvs) ''version'') (JNum 0),
           rt_configs := \<lparr> cf_inRequest = None, cf_error = JUndef, cf_items = JArr (JObj kvs # cs) \<rparr>,
           rt_confirm := None \<rparr>, ?a)"
    by (simp add: rootReducer_def h ver pc INITIAL_CONFIGS_def del: currentVersion.simps prop_of.simps)
  then show ?thesis
    using assms(3) by (simp add: fetchConfigs_finish_def base_dispatch_def Let_def del: prop_of.simps)
qed

section \<open>Answers to a save\<close>

text \<open>What a save leaves in the configurations slice, by answer.\<close>

fun commit_outcome :: "configs_state \<Rightarrow> answer \<Rightarrow> configs_state" where
  "commit_outcome c (Network_error m) = handleConfigsFailure c (error_object ''RequestError'' m)"
| "commit_outcome c (Response ok status reason is_json body) =
     (case getJSON status is_json body of
        Inl m \<Rightarrow> handleConfigsFailure c (error_object ''InternalError'' m)
      | Inr v \<Rightarrow> if ok then INITIAL_CONFIGS
                else handleConfigsFailure c (api_error status reason v))"
| "commit_outcome c _ = c"

lemma commit_store:
  assumes "commit_call r" "answers (Await_api r) ans"
  shows "store (deliver w (Await_api r) ans) =
           (store w)\<lparr> rt_stats := (if \<exists>m. ans = Network_error m then INITIAL_STATS else rt_stats (store w)),
                      rt_configs := commit_outcome (rt_configs (store w)) ans, rt_confirm := None \<rparr> \<and>
         uncaught (deliver w (Await_api r) ans) = uncaught w"
proof (cases ans)
  case (Network_error m)
  then show ?thesis
    using assms(1) by (simp add: commit_call_def configs_types_def api_action_def next_async_def
        base_dispatch_def root_configs_actions)
next
  case (Response ok status reason is_json body)
  then show ?thesis
    using assms(1) by (cases "getJSON status is_json body")
      (simp_all add: commit_call_def configs_types_def api_action_def next_async_def
        base_dispatch_def root_configs_actions)
qed (use assms in auto)

text \<open>
  C19: No answer to a save loses an edit: whatever comes back, the tree, its history, the version and
  the selection are exactly as before. An accepted save resets the configurations slice (which
  makes the page load them again), a rejected one records the server's answer as the error, and a
  failed connection records that.
\<close>

theorem commit_keeps_edits:
  assumes "commit_call r" "answers (Await_api r) ans"
  shows "store (deliver w (Await_api r) ans) =
           (store w)\<lparr> rt_stats := (if \<exists>m. ans = Network_error m then INITIAL_STATS else rt_stats (store w)),
                      rt_configs := commit_outcome (rt_configs (store w)) ans, rt_confirm := None \<rparr> \<and>
         uncaught (deliver w (Await_api r) ans) = uncaught w"
  using commit_store [OF assms] .

definition sample_commit :: rsaa where
  "sample_commit =
     \<lparr> endpoint = ''/api'', method_name = ''POST'', headers = [], body_text = None,
       credentials = ''same-origin'', types = configs_types \<rparr>"

theorem commit_keeps_edits_witness:
  "commit_call sample_commit \<and>
   rt_configs (store (deliver initial_world (Await_api sample_commit)
     (Response False 409 ''Conflict'' False (Inr JUndef)))) =
   handleConfigsFailure INITIAL_CONFIGS (api_error 409 ''Conflict'' JUndef)"
proof -
  have "commit_call sample_commit"
    by (simp add: sample_commit_def commit_call_def validateRSAA_def)
  then show ?thesis
    using commit_keeps_edits [of sample_commit "Response False 409 ''Conflict'' False (Inr JUndef)"
      initial_world]
    by (simp add: getJSON_def initial_world_def initial_root_def del: deliver.simps)
qed

section \<open>Answers to a statistics request\<close>

lemma json_props_ok_keys:
  "json_props_ok n kvs \<Longrightarrow> distinct (map fst kvs) \<and> ''__proto__'' \<notin> set (map fst kvs)"
  by (auto simp: json_props_ok_iff safe_key_def)

lemma merged_items:
  assumes "json_props_ok 63 kvs" "its = JUndef \<or> (\<exists>old. its = JObj old \<and> json_props_ok 63 old)"
  defines "new \<equiv> object_assign (object_assign [] (js_or its (JObj []))) (JObj kvs)"
  shows "immutable_from (JObj new) = Inr (JObj new)" "json_props_ok 63 new"
    and "map_of new k = (case map_of kvs k of Some v \<Rightarrow> Some v | None \<Rightarrow> lookup_in its [k])"
proof -
  define old where "old = own_props its"
  have old: "json_props_ok 63 old" "lookup_in its [k] = map_of old k"
    using assms(2) by (auto simp: old_def split: option.split)
  have "object_assign [] (JObj old) = old"
    using object_assign_new [of "[]" old] json_props_ok_keys [OF old(1)] by simp
  moreover have "js_or its (JObj []) = JObj old" using assms(2) by (auto simp: old_def)
  ultimately have start: "object_assign [] (js_or its (JObj [])) = old" by simp
  show ok: "json_props_ok 63 new"
    unfolding new_def start using json_props_ok_assign [OF old(1) assms(1)] .
  then show "immutable_from (JObj new) = Inr (JObj new)"
    by (simp add: immutable_from_def im_from_json_ok json_props_ok_immutable)
  show "map_of new k = (case map_of kvs k of Some v \<Rightarrow> Some v | None \<Rightarrow> lookup_in its [k])"
    unfolding new_def start using json_props_ok_keys [OF assms(1)]
    by (simp add: map_of_object_assign old(2) split: option.split)
qed

text \<open>
  The statistics slice follows its requests: starting one clears the error and sets the flag; an
  answer with a readable object clears the flag and adds its entries to those already there,
  overwriting the ones with the same name and keeping all others; any failure clears the flag and
  records the error without touching the entries.
\<close>

lemma stats_request_cycle:
  assumes "json_ok 64 (JObj kvs)"
    and "st_items st = JUndef \<or> (\<exists>old. st_items st = JObj old \<and> json_ok 64 (JObj old))"
  shows "stats (Some st) (STATS_REQUEST False JUndef) =
           Inr (Some (st\<lparr> st_inRequest := Some True, st_error := JNull \<rparr>)) \<and>
         (\<exists>new. stats (Some st) (STATS_FETCH_SUCCESS False (JObj kvs)) =
             Inr (Some (st\<lparr> st_inRequest := Some False, st_items := JObj new \<rparr>)) \<and>
           json_ok 64 (JObj new) \<and>
           (\<forall>k. map_of new k = (case map_of kvs k of Some v \<Rightarrow> Some v
                                | None \<Rightarrow> lookup_in (st_items st) [k]))) \<and>
         stats (Some st) (STATS_FAILURE True e) =
           Inr (Some (st\<lparr> st_inRequest := Some False, st_error := e \<rparr>))"
  using merged_items [of kvs "st_items st"] assms by (auto simp: Let_def)

text \<open>
  The user opens namespace a, searches the statistics of its bucket x, goes to namespace b, and
  then the answer for a arrives.
\<close>

definition late_statistics :: "props \<Rightarrow> world" where
  "late_statistics kvs =
     (let w1 = handle_event initial_world (Thk (selectNamespace_thunk (Some ''a'') True));
          w2 = handle_event w1 (Thk (fetchStats_thunk ''a'' (Some ''x'')));
          w3 = handle_event w2 (Thk (selectNamespace_thunk (Some ''b'') True))
      in deliver (w3\<lparr> pending := [] \<rparr>) (hd (pending w3)) (Response True 200 ''OK'' True (Inr (JObj kvs))))"

lemma late_statistics_start:
  "handle_event (handle_event (handle_event initial_world
       (Thk (selectNamespace_thunk (Some ''a'') True))) (Thk (fetchStats_thunk ''a'' (Some ''x''))))
       (Thk (selectNamespace_thunk (Some ''b'') True)) =
   \<lparr> store = initial_root\<lparr> rt_selectedNamespace := Some \<lparr> sel_namespace = ''b'', canMakeChanges = True \<rparr> \<rparr>,
     pending = [Await_api (fetchStatsAction ''a'' (Some ''x''))], uncaught = [] \<rparr>"
  by (simp add: handle_event_def selectNamespace_thunk_def fetchStats_thunk_def dispatch_action_def
      base_dispatch_def rootReducer_def history_other select_def api_start_def fetchStatsAction_def
      Let_def validateRSAA_def api_action_def initial_world_def initial_root_def)



end
