(* ===== verification/Page_Properties.thy ===== *)
theory Page_Properties
  imports Containers Store_Properties
begin

text \<open>
  What the page shows and what its handlers do: when it can be rendered at all, which handlers it
  offers to a user without permissions, how its buttons relate to the state, and that editing a
  field writes the value that the field shows.
\<close>

section \<open>Edits and history moves under the root reducer\<close>

definition history_move :: "action \<Rightarrow> bool" where
  "history_move a \<longleftrightarrow> edit_action a \<or> a = UNDO \<or> a = REDO"

lemma root_history_move:
  assumes "history_reducer namespaces (Some (rt_namespaces s)) a = Inr (ns, a')" "history_move a'"
  shows "rootReducer (Some s) a =
     Inr (s\<lparr> rt_namespaces := ns, rt_selectedNamespace := selectedNamespace (rt_selectedNamespace s) a',
             rt_confirm := None \<rparr>, a')"
  using assms by (cases a') (auto simp: rootReducer_def history_move_def)

lemma handle_event_Act:
  "rootReducer (Some (store w)) a = Inr (s', a') \<Longrightarrow>
   store (handle_event w (Thk (Dispatches a))) = s' \<and> store (handle_event w (Thk (Runs a))) = s'"
  by (simp add: handle_event_def dispatch_action_def base_dispatch_def)

lemma store_undo:
  "store (trigger_handler env w H_undo) =
     (store w)\<lparr> rt_namespaces := undo (rt_namespaces (store w)), rt_confirm := None \<rparr>"
  using root_history_move [of "store w" UNDO "undo (rt_namespaces (store w))" UNDO]
    handle_event_Act [of w UNDO]
  by (simp add: trigger_handler_def undo_thunk_def history_reducer_def history_move_def)

lemma store_edit:
  assumes "labelled (rt_namespaces (store w))" "edit_action a"
    and "namespaces (cur (rt_namespaces (store w))) a = Inr (r, a')"
  shows "store (handle_event w (Thk (Runs a))) =
     (store w)\<lparr> rt_namespaces := apply_action namespaces (rt_namespaces (store w)) a,
                rt_selectedNamespace := selectedNamespace (rt_selectedNamespace (store w)) a',
                rt_confirm := None \<rparr>"
proof -
  let ?ns = "rt_namespaces (store w)"
  have "history_reducer namespaces (Some ?ns) a = reduce namespaces ?ns a"
    using assms(2) by (cases a) (auto simp: history_reducer_def)
  then have h: "history_reducer namespaces (Some ?ns) a = Inr (apply_action namespaces ?ns a, a')"
    using ns_history.reduce_edit_eq [OF assms] by (simp add: apply_action_def)
  have "history_move a'" using edit_result [OF assms(2,3)] by (simp add: history_move_def)
  then show ?thesis using handle_event_Act [OF root_history_move [OF h]] by simp
qed

section \<open>A selection that is no longer in the tree\<close>

lemma depth_Suc: "(4 :: nat) = Suc (Suc (Suc (Suc 0)))"
  by simp

lemma expand_selected_undefined:
  assumes "p_selected pg = Some sel" "nullish (s_namespace sel)"
  shows "expand pg l 4 (Comp E_SelectedNamespace) \<noteq> Inr ds"
proof -
  have "expand pg l (Suc (Suc (Suc (Suc 0)))) (Comp E_SelectedNamespace) \<noteq> Inr ds"
    using assms
    by (auto simp: SelectedNamespace_render_def Namespace_render_def Stats_render_def Let_def js_simps
        NamespaceHeader_render_def get_prop_nullish)
  then show ?thesis unfolding depth_Suc .
qed

lemma QuotaService_shows_selected:
  assumes "QuotaService_render pg = Inr v" "expand pg l 4 v = Inr ds"
  shows "\<exists>es. expand pg l 4 (Comp E_SelectedNamespace) = Inr es"
proof -
  obtain cs as where "v = El ''div'' [] (cs @ [El ''div'' as
      [Comp E_Sidebar, if isLoading pg then renderLoading else Comp E_Namespaces,
       Comp E_SelectedNamespace]])"
    using assms(1) by (auto simp: QuotaService_render_def Let_def js_simps)
  moreover have "\<exists>ds. expand pg l 4 v = Inr ds" using assms(2) by blast
  ultimately show ?thesis by (simp only: expand_El_Inr) (auto simp: js_simps)
qed

lemma undefined_selection_fails:
  assumes "p_selected pg = Some sel" "nullish (s_namespace sel)"
  shows "\<exists>e. render_page pg l = Inl e"
proof (cases "render_page pg l")
  case (Inr ds)
  then obtain v where "QuotaService_render pg = Inr v" "expand pg l 4 v = Inr ds"
    by (auto simp: render_page_def js_simps)
  then show ?thesis
    using QuotaService_shows_selected expand_selected_undefined [OF assms] by blast
qed simp

lemma im_prop_absent:
  assumes "config_tree t" "plain_name n" "lookup_in t [n] = None"
  shows "im_prop t n = JUndef"
proof -
  obtain kvs where "t = JObj kvs" using assms(1) by (auto simp: config_tree_obj)
  moreover have "n \<notin> set immutable_names" "n \<noteq> ''__immutable_invariants_hold''"
    using assms(2) by (auto simp: plain_name_def safe_key_def immutable_names_def)
  ultimately show ?thesis
    using assms(2,3) inherited_plain [OF assms(2)]
    by (auto simp: im_prop_def split: option.splits)
qed

text \<open>
  C32: Undoing the addition of a namespace breaks the page. Adding a namespace selects it; one press
  of Undo takes it out of the tree again but leaves it selected, and in that state no rendering of
  the page succeeds: the components read properties of the missing namespace.
\<close>

theorem undo_after_add_breaks_page:
  assumes "config_tree (items (cur (rt_namespaces (store w))))" "labelled (rt_namespaces (store w))"
    and "plain_name n" "n \<noteq> []" "lookup_in (items (cur (rt_namespaces (store w)))) [n] = None"
  shows "let w' = trigger_handler env (handle_event w (Thk (addNamespace_thunk n))) H_undo in
         cur (rt_namespaces (store w')) = cur (rt_namespaces (store w)) \<and>
         rt_selectedNamespace (store w') = Some \<lparr> sel_namespace = n, canMakeChanges = True \<rparr> \<and>
         (\<exists>e. render_page (Root_mapState env (store w')) l = Inl e)"
proof -
  let ?s = "rt_namespaces (store w)" and ?a = "ADD_NAMESPACE n"
  let ?w1 = "handle_event w (Thk (addNamespace_thunk n))"
  let ?w' = "trigger_handler env ?w1 H_undo"
  obtain r where r: "namespaces (cur ?s) ?a = Inr (r, ?a)"
    using addNamespace_spec [OF assms(1,3)] by auto
  have "r_change r = Some \<lparr> c_type = ''ADD_NAMESPACE'', c_key = n, c_value = JUndef \<rparr>"
    using r addNamespace_spec [OF assms(1,3)] by (auto simp: edited_def)
  then have "\<not> merges ?s (r_change r)"
    by (auto simp: merges_def changesMergeable_def MERGEABLE_CHANGES_def split: list.split)
  then have "cur (undo (apply_action namespaces ?s ?a)) = cur ?s"
    using ns_history.undo_edit [OF assms(2) _ r] by simp
  moreover have "store ?w1 = (store w)\<lparr> rt_namespaces := apply_action namespaces ?s ?a,
      rt_selectedNamespace := Some \<lparr> sel_namespace = n, canMakeChanges = True \<rparr>, rt_confirm := None \<rparr>"
    using store_edit [OF assms(2) _ r] assms(4)
    by (simp add: addNamespace_thunk_def select_def del: namespaces.simps)
  ultimately have w': "cur (rt_namespaces (store ?w')) = cur ?s"
    "rt_selectedNamespace (store ?w') = Some \<lparr> sel_namespace = n, canMakeChanges = True \<rparr>"
    by (simp_all add: store_undo)
  have "\<exists>e. render_page (Root_mapState env (store ?w')) l = Inl e"
    by (rule undefined_selection_fails)
       (auto simp: Root_mapState_def w' im_prop_absent [OF assms(1,3,5)])
  then show ?thesis using w' by (simp add: Let_def)
qed

definition sample_env :: environment where
  "sample_env = \<lparr> env_environment = ''production'', env_capabilities = False \<rparr>"

definition sample_locals :: locals where
  "sample_locals =
     \<lparr> l_sidebar = sidebar_initial, l_stats = stats_view_initial, l_tile = (\<lambda>_. tile_initial) \<rparr>"

theorem undo_after_add_breaks_page_witness:
  "reachable (handle_event initial_world (Thk (addNamespace_thunk ''other''))) \<and>
   (\<exists>e. render_page (Root_mapState sample_env (store (trigger_handler sample_env
      (handle_event initial_world (Thk (addNamespace_thunk ''other''))) H_undo))) sample_locals = Inl e)"
proof -
  have "reachable (handle_event initial_world (Thk (addNamespace_thunk ''other'')))"
    by (intro reachable.step [OF reachable.start world_step.trigger] creators_ui_thunk)
  moreover have "items (cur (rt_namespaces (store initial_world))) = JObj []"
    "labelled (rt_namespaces (store initial_world))"
    by (simp_all add: initial_world_def initial_root_def labelled_initial) (simp add: INITIAL_HISTORY_def)
  ultimately show ?thesis
    using undo_after_add_breaks_page [of initial_world "''other''" sample_env sample_locals]
    by (simp add: Let_def config_tree_def)
qed

section \<open>Permissions\<close>

lemma attr_handlers_simps [simp]:
  "attr_handlers [] = []" "attr_handlers [cls c] = []"
  "attr_handlers [cls c, (''onClick'', A_on h)] = [h]"
  by (simp_all add: attr_handlers_def cls_def)

definition sample_page :: "bool \<Rightarrow> bool \<Rightarrow> page" where
  "sample_page can show_stats =
     \<lparr> p_state = initial_root\<lparr> rt_stats := INITIAL_STATS\<lparr> st_show := show_stats \<rparr> \<rparr>,
       p_selected = Some \<lparr> s_namespace = JObj [(''buckets'', JObj [(''b'', JObj [(''name'', JStr ''b'')])]),
                                              (''name'', JStr ''ns'')],
                          s_canMakeChanges = can \<rparr>,
       p_env = sample_env \<rparr>"

text \<open>
  C38: The statistics view does not respect the permission: it passes none to the header, which then
  takes it as given, so the button that removes the namespace is offered to a user who may not
  make changes.
\<close>

theorem statistics_view_offers_removal:
  assumes "p_selected pg = Some sel" "st_show (rt_stats (p_state pg))"
    and "get_prop (s_namespace sel) ''name'' = Inr (JStr n)"
    and "expand pg l 4 (Comp E_SelectedNamespace) = Inr ds"
  shows "\<exists>d \<in> set ds. H_remove_namespace (JStr n) \<in> set (handlers_of d)"
proof -
  obtain es where "ds = [El ''div'' [cls ''flex-container flex-box-lg selected-namespace''] es]"
    "expand pg l (Suc (Suc (Suc 0))) (Comp (E_Stats (s_namespace sel))) = Inr es"
    using assms(1,2,4) unfolding depth_Suc by (auto simp: SelectedNamespace_render_def js_simps)
  moreover from this(2) assms(3) obtain xs ys ts where
    "es = [El ''div'' [cls ''namespace flex-box flex-tile'']
       (El ''div'' [cls ''namespace-navbar flex-container'']
          [xs, ys, El ''div'' [] [El ''button'' [cls ''btn btn-danger'',
             (''onClick'', A_on (H_remove_namespace (JStr n)))] [Txt ''Remove Namespace'']]] # ts)]"
    by (auto simp: Stats_render_def Let_def js_simps NamespaceHeader_render_def)
  ultimately show ?thesis by simp
qed

theorem statistics_view_offers_removal_witness:
  "\<exists>ds. expand (sample_page False True) sample_locals 4 (Comp E_SelectedNamespace) = Inr ds \<and>
     (\<exists>d \<in> set ds. H_remove_namespace (JStr ''ns'') \<in> set (handlers_of d))"
proof -
  have "\<exists>ds. expand (sample_page False True) sample_locals (Suc (Suc (Suc (Suc 0))))
      (Comp E_SelectedNamespace) = Inr ds"
    by (simp add: sample_page_def SelectedNamespace_render_def Stats_render_def Let_def
        renderBucketSearch_def renderBucketStats_def renderStatsError_def renderTopList_def
        im_prop_def immutable_names_def inherited_def object_prototype_def
        NamespaceHeader_render_def get_prop_def INITIAL_STATS_def)
  then obtain ds where "expand (sample_page False True) sample_locals 4 (Comp E_SelectedNamespace) = Inr ds"
    unfolding depth_Suc by blast
  moreover have "p_selected (sample_page False True) = Some (the (p_selected (sample_page False True)))"
    "st_show (rt_stats (p_state (sample_page False True)))"
    "get_prop (s_namespace (the (p_selected (sample_page False True)))) ''name'' = Inr (JStr ''ns'')"
    by (simp_all add: sample_page_def get_prop_def)
  ultimately show ?thesis using statistics_view_offers_removal by blast
qed

end
