(* ===== verification/Page_Rendering.thy ===== *)
theory Page_Rendering
  imports Page_Properties
begin

text \<open>
  When the page can be rendered: \<open>showable\<close> collects what the data of the state must look like for
  the components (values where text is expected, lists where lists are mapped), and the main
  property says that for such a state only a selection that is missing from the tree makes the
  rendering fail.
\<close>

section \<open>Data the components can show\<close>

definition child_ok :: "jsval \<Rightarrow> bool" where
  "child_ok v = (case child_of v of Inl _ \<Rightarrow> False | Inr _ \<Rightarrow> True)"

definition bucket_ok :: "jsval \<Rightarrow> bool" where
  "bucket_ok b \<longleftrightarrow> \<not> truthy b \<or> child_ok (im_prop b ''name'')"

definition namespace_ok :: "jsval \<Rightarrow> bool" where
  "namespace_ok ns \<longleftrightarrow>
     is_obj ns \<and> child_ok (im_prop ns ''name'') \<and>
     bucket_ok (im_prop ns ''dynamic_bucket_template'') \<and> bucket_ok (im_prop ns ''default_bucket'') \<and>
     list_all bucket_ok (bucket_values (im_prop ns ''buckets''))"

definition tree_ok :: "jsval \<Rightarrow> bool" where
  "tree_ok t \<longleftrightarrow> config_tree t \<and> list_all (\<lambda>k. namespace_ok (im_prop t k)) (object_keys (own_props t))"

definition result_ok :: "'a result \<Rightarrow> bool" where
  "result_ok r = (case r of Inl _ \<Rightarrow> False | Inr _ \<Rightarrow> True)"

definition configs_list_ok :: "jsval \<Rightarrow> bool" where
  "configs_list_ok its =
     (case its of
        JUndef \<Rightarrow> True
      | JArr cs \<Rightarrow> list_all (\<lambda>c. result_ok (Config_render c (H_load c))) cs
      | _ \<Rightarrow> False)"

definition error_ok :: "jsval \<Rightarrow> bool" where
  "error_ok e \<longleftrightarrow> \<not> truthy e \<or> result_ok (Error_render e)"

definition entry_ok :: "entry \<Rightarrow> bool" where
  "entry_ok e = result_ok (description (e_change e))"

definition showable :: "locals \<Rightarrow> root_state \<Rightarrow> bool" where
  "showable l s \<longleftrightarrow>
     tree_ok (items (cur (rt_namespaces s))) \<and>
     result_ok (loose_eq (js_or (version (cur (rt_namespaces s))) (JNum 0)) (rt_currentVersion s)) \<and>
     list_all entry_ok (past (hist (rt_namespaces s))) \<and>
     list_all entry_ok (future (hist (rt_namespaces s))) \<and>
     configs_list_ok (cf_items (rt_configs s)) \<and> error_ok (cf_error (rt_configs s)) \<and>
     error_ok (st_error (rt_stats s)) \<and>
     (st_show (rt_stats s) \<longrightarrow> result_ok (Stats_render (JObj []) (rt_stats s) (l_stats l))) \<and>
     confirm_ok (rt_confirm s)"

section \<open>Rendering, component by component\<close>

definition renders :: "page \<Rightarrow> locals \<Rightarrow> nat \<Rightarrow> vnode \<Rightarrow> bool" where
  "renders pg l n v \<longleftrightarrow> (\<exists>ds. expand pg l n v = Inr ds)"

lemma renders_simps [simp]:
  "renders pg l n (Txt s)"
  "renders pg l n (El t as cs) \<longleftrightarrow> (\<forall>c \<in> set cs. renders pg l n c)"
  "renders pg l (Suc n) (Comp e) \<longleftrightarrow>
     (\<exists>vs. render_element pg l e = Inr vs \<and> (\<forall>v \<in> set vs. renders pg l n v))"
  by (simp_all add: renders_def expand_El_Inr expand_Comp_Inr del: expand.simps(2-4))

lemma renders_child:
  "child_of v = Inr cs \<Longrightarrow> \<forall>c \<in> set cs. renders pg l n c"
  "children_of vs = Inr cs \<Longrightarrow> \<forall>c \<in> set cs. renders pg l n c"
  by (induction v and vs arbitrary: cs and cs rule: child_of_children_of.induct)
     (auto simp: js_simps)

lemma result_okE: "result_ok r \<Longrightarrow> (\<And>x. r = Inr x \<Longrightarrow> P) \<Longrightarrow> P"
  by (cases r) (auto simp: result_ok_def)

lemma child_okE: "child_ok v \<Longrightarrow> (\<And>cs. child_of v = Inr cs \<Longrightarrow> P) \<Longrightarrow> P"
  by (cases "child_of v") (auto simp: child_ok_def)

lemma renders_Field [simp]: "renders pg l n (Field_render p st)"
  by (simp add: Field_render_def)

lemma renders_header:
  "is_obj ns \<Longrightarrow> child_ok (im_prop ns ''name'') \<Longrightarrow> renders pg l (Suc n) (Comp (E_NamespaceHeader ns c h))"
  by (cases ns)
     (auto elim!: child_okE simp: NamespaceHeader_render_def get_prop_def im_prop_def
       immutable_names_def renders_child)

lemma renders_bucket:
  assumes "bp_bucket p = b" "bucket_ok b" "truthy b"
  shows "renders pg l (Suc (Suc n)) (Comp (E_Bucket p))"
proof -
  obtain cs where "child_of (im_prop b ''name'') = Inr cs"
    using assms(2,3) by (auto simp: bucket_ok_def elim: child_okE)
  moreover have "\<not> nullish b" using assms(3) by (rule truthy_not_nullish)
  ultimately show ?thesis
    using assms(1) by (auto simp: Bucket_render_def Let_def bucket_field_def renderShowDynamicStats_def
        renders_child split: prod.split)
qed

lemma renders_renderBucket:
  "bucket_ok b \<Longrightarrow> v \<in> set (renderBucket nm can dyn b) \<Longrightarrow> renders pg l (Suc (Suc n)) v"
  using renders_bucket [of _ b]
  by (auto simp: renderBucket_def simp del: renders_simps split: if_splits)

lemma renders_namespace:
  assumes "namespace_ok ns"
  shows "renders pg l (Suc (Suc (Suc n))) (Comp (E_Namespace ns can))"
proof -
  have ns: "is_obj ns" "child_ok (im_prop ns ''name'')" using assms by (simp_all add: namespace_ok_def)
  have bs: "bucket_ok (im_prop ns ''dynamic_bucket_template'')" "bucket_ok (im_prop ns ''default_bucket'')"
    "\<And>b. b \<in> set (bucket_values (im_prop ns ''buckets'')) \<Longrightarrow> bucket_ok b"
    using assms by (auto simp: namespace_ok_def list_all_iff)
  moreover have "\<not> nullish ns" using ns(1) by (cases ns) auto
  ultimately show ?thesis
    using renders_header [OF ns, of pg l "Suc n"]
    by (auto simp: Namespace_render_def Let_def intro: renders_renderBucket [OF bs(1)]
        renders_renderBucket [OF bs(2)] renders_renderBucket [OF bs(3)])
qed

lemma renders_error: "result_ok (Error_render e) \<Longrightarrow> renders pg l (Suc n) (Comp (E_Error e))"
  by (auto elim!: result_okE simp: Error_render_def js_simps renders_child)

lemma Stats_render_namespace:
  "result_ok (Stats_render (JObj []) ss st) \<Longrightarrow> result_ok (Stats_render ns ss st)"
  by (auto elim!: result_okE simp: Stats_render_def Let_def js_simps) (simp add: result_ok_def)

lemma renders_stat_row: "stat_row t v = Inr r \<Longrightarrow> renders pg l n r"
  by (auto simp: stat_row_def js_simps renders_child)

lemma renders_top_row: "top_row v = Inr r \<Longrightarrow> renders pg l n r"
  by (auto simp: top_row_def js_simps renders_child)

lemma renders_top_list: "renderTopList t v = Inr vs \<Longrightarrow> x \<in> set vs \<Longrightarrow> renders pg l n x"
  by (auto simp: renderTopList_def js_simps split: if_splits jsval.splits)
     (use map_result_mem renders_top_row in fastforce)

lemma renders_stats:
  assumes "namespace_ok ns" "error_ok (st_error (rt_stats (p_state pg)))"
    and "result_ok (Stats_render (JObj []) (rt_stats (p_state pg)) (l_stats l))"
  shows "renders pg l (Suc (Suc n)) (Comp (E_Stats ns))"
proof -
  let ?ss = "rt_stats (p_state pg)"
  have ns: "is_obj ns" "child_ok (im_prop ns ''name'')" using assms(1) by (simp_all add: namespace_ok_def)
  obtain v where v: "Stats_render ns ?ss (l_stats l) = Inr v"
    using Stats_render_namespace [OF assms(3)] by (auto elim: result_okE)
  then obtain search hits misses where parts: "renderBucketSearch ?ss (l_stats l) = Inr search"
    "\<forall>x \<in> set (hits @ misses). renders pg l (Suc n) x"
    "v = El ''div'' [cls ''namespace flex-box flex-tile'']
          [Comp (E_NamespaceHeader ns None H_toggle_stats),
           El ''div'' [cls ''buckets''] ([search] @ hits @ misses)]"
    by (auto simp: Stats_render_def Let_def js_simps dest: renders_top_list)
  have "renders pg l (Suc n) (Comp (E_Error (st_error ?ss)))" if "truthy (st_error ?ss)"
    using assms(2) that renders_error by (simp add: error_ok_def del: renders_simps)
  then have "\<forall>x \<in> set (renderStatsError (st_error ?ss)). renders pg l (Suc n) x"
    by (simp add: renderStatsError_def del: renders_simps)
  then have "renders pg l (Suc n) search"
    using parts(1)
    by (auto simp: renderBucketSearch_def renderBucketStats_def Let_def js_simps renders_stat_row
        simp del: renders_simps(3) split: if_splits)
  then show ?thesis
    using v parts(2,3) renders_header [OF ns, of pg l n]
    by (subst renders_simps(3)) (auto simp del: renders_simps(3))
qed

lemma renders_tile_bucket: "tile_bucket b = Inr r \<Longrightarrow> v \<in> set r \<Longrightarrow> renders pg l n v"
  by (auto simp: tile_bucket_def js_simps renders_child split: if_splits)

lemma tile_bucket_ok: "bucket_ok b \<Longrightarrow> \<exists>r. tile_bucket b = Inr r"
  by (auto simp: bucket_ok_def tile_bucket_def elim: child_okE)

lemma renders_tile:
  assumes "namespace_ok (tp_namespace p)"
  shows "renders pg l (Suc n) (Comp (E_NamespaceTile k p))"
proof -
  let ?ns = "tp_namespace p"
  let ?bs = "im_prop ?ns ''dynamic_bucket_template'' # im_prop ?ns ''default_bucket''
             # bucket_values (im_prop ?ns ''buckets'')"
  have "\<forall>b \<in> set ?bs. \<exists>r. tile_bucket b = Inr r"
    using assms by (auto simp: namespace_ok_def list_all_iff intro: tile_bucket_ok)
  then obtain rs where rs: "map_result tile_bucket ?bs = Inr rs" using map_result_Inr by blast
  have "\<forall>r \<in> set rs. \<forall>v \<in> set r. renders pg l n v"
    using map_result_mem [OF rs] renders_tile_bucket by blast
  moreover obtain cs where "child_of (im_prop ?ns ''name'') = Inr cs"
    using assms by (auto simp: namespace_ok_def elim: child_okE)
  moreover have "\<not> nullish ?ns" using assms by (cases ?ns) (auto simp: namespace_ok_def)
  ultimately show ?thesis
    using rs by (auto simp: NamespaceTile_render_def Let_def renders_child simp del: map_result.simps)
qed

lemma namespace_ok_not_nullish: "namespace_ok ns \<Longrightarrow> \<not> nullish ns"
  by (cases ns) (auto simp: namespace_ok_def)

lemma namespace_tile_ok:
  assumes "namespace_ok (im_prop t k)"
    and "\<And>sel. p_selected pg = Some sel \<Longrightarrow> \<not> nullish (s_namespace sel)"
  shows "\<exists>v. namespace_tile pg t k = Inr v \<and> renders pg l (Suc n) v"
proof -
  have "\<exists>c. (case p_selected pg of None \<Rightarrow> Inr (JStr [])
              | Some sel \<Rightarrow> get_prop (s_namespace sel) ''name'') = Inr c"
    using assms(2) by (cases "p_selected pg") (auto simp: get_prop_def)
  then obtain c where "(case p_selected pg of None \<Rightarrow> Inr (JStr [])
              | Some sel \<Rightarrow> get_prop (s_namespace sel) ''name'') = Inr c" ..
  moreover have "get_prop (im_prop t k) ''name'' = Inr (prop_of (im_prop t k) ''name'')"
    using namespace_ok_not_nullish [OF assms(1)] by (simp add: get_prop_def)
  ultimately have "namespace_tile pg t k = Inr (Comp (E_NamespaceTile k
      \<lparr> tp_capabilities = rt_capabilities (p_state pg),
        tp_capabilitiesEnabled = env_capabilities (p_env pg),
        tp_isSelected = (prop_of (im_prop t k) ''name'' = c), tp_namespace = im_prop t k \<rparr>))"
    by (simp add: namespace_tile_def Let_def)
  moreover have "renders pg l (Suc n) (Comp (E_NamespaceTile k p))" if "tp_namespace p = im_prop t k" for p
    using renders_tile [of p pg l n k] assms(1) that by (simp only:)
  ultimately show ?thesis by (metis tile_props.select_convs(4))
qed

lemma Namespaces_ok:
  assumes "tree_ok (items (cur (rt_namespaces (p_state pg))))"
    and "\<And>sel. p_selected pg = Some sel \<Longrightarrow> \<not> nullish (s_namespace sel)"
  shows "renders pg l (Suc (Suc n)) (Comp E_Namespaces)"
proof -
  let ?t = "items (cur (rt_namespaces (p_state pg)))"
  let ?ks = "object_keys (own_props ?t)"
  have tile: "\<exists>v. namespace_tile pg ?t k = Inr v \<and> renders pg l (Suc n) v" if "k \<in> set ?ks" for k
    using assms that by (intro namespace_tile_ok) (auto simp: tree_ok_def list_all_iff)
  obtain ts where ts: "map_result (namespace_tile pg ?t) ?ks = Inr ts"
    "\<forall>v \<in> set ts. renders pg l (Suc n) v"
    using map_result_ok [of ?ks "namespace_tile pg ?t", OF tile] by blast
  moreover have "truthy ?t" using assms(1) by (cases ?t) (auto simp: tree_ok_def config_tree_def)
  ultimately show ?thesis
    using ts by (subst renders_simps(3)) (simp add: Namespaces_render_def Let_def del: renders_simps(3))
qed

lemma renders_changes:
  assumes "list_all entry_ok (past h)" "list_all entry_ok (future h)"
  shows "renders pg l (Suc (Suc n)) (Comp (E_Changes h))"
proof -
  have "renders pg l (Suc n) (Comp (E_Change c (e_change e)))" if "entry_ok e" for c e
    using that
    by (auto simp: entry_ok_def Change_render_def description_def js_simps renders_child
        elim!: result_okE split: option.splits if_splits)
  then show ?thesis
    using assms
    by (subst renders_simps(3))
       (auto simp: Changes_render_def renderChanges_list_def list_all_iff simp del: renders_simps(3))
qed

lemma renders_config: "Config_render c h = Inr v \<Longrightarrow> renders pg l n v"
  by (auto simp: Config_render_def js_simps renders_child)

lemma config_entry_ok:
  assumes "result_ok (Config_render c (H_load c))"
  shows "\<exists>v. config_entry c = Inr v \<and> renders pg l (Suc n) v"
proof -
  obtain v where v: "Config_render c (H_load c) = Inr v" using assms by (auto elim: result_okE)
  then have "config_entry c = Inr (Comp (E_Config c (H_load c)))"
    by (auto simp: config_entry_def Config_render_def js_simps)
  then show ?thesis using v renders_config by auto
qed

lemma renders_configs:
  assumes "configs_list_ok its"
  shows "renders pg l (Suc (Suc n)) (Comp (E_Configs its))"
proof (cases "its = JUndef")
  case False
  then obtain cs where cs: "its = JArr cs" "\<forall>c \<in> set cs. result_ok (Config_render c (H_load c))"
    using assms by (auto simp: configs_list_ok_def list_all_iff split: jsval.splits)
  have "\<exists>v. config_entry c = Inr v \<and> renders pg l (Suc n) v" if "c \<in> set cs" for c
    using cs(2) that by (intro config_entry_ok) blast
  then obtain es where es: "map_result config_entry cs = Inr es" "\<forall>v \<in> set es. renders pg l (Suc n) v"
    using map_result_ok [of cs config_entry] by blast
  then show ?thesis
    using cs(1) es by (subst renders_simps(3)) (auto simp: Configs_render_def simp del: renders_simps(3))
qed (simp add: Configs_render_def)

lemma renders_AddField [simp]: "renders pg l n (AddField_render v ph t hc hs)"
  by (simp add: AddField_render_def)

lemma special_buttons_ok:
  assumes "\<And>sel. p_selected pg = Some sel \<Longrightarrow> \<not> nullish (s_namespace sel)"
  shows "\<exists>bs. renderSpecialBucketButtons pg = Inr bs \<and> (\<forall>b \<in> set bs. renders pg l n b)"
proof (cases "p_selected pg")
  case (Some sel)
  have "\<exists>bs. special_button (s_namespace sel) x = Inr bs \<and> (\<forall>b \<in> set bs. renders pg l n b)" for x
    using assms [OF Some] by (cases x) (simp add: special_button_def get_prop_def)
  then have "\<exists>bss. map_result (special_button (s_namespace sel)) BUCKET_KEY_MAP = Inr bss \<and>
      (\<forall>bs \<in> set bss. \<forall>b \<in> set bs. renders pg l n b)"
    by (rule map_result_ok)
  then show ?thesis using Some by (auto simp: renderSpecialBucketButtons_def)
qed (simp add: renderSpecialBucketButtons_def)

lemma renders_sidebar:
  assumes "showable l (p_state pg)"
    and "\<And>sel. p_selected pg = Some sel \<Longrightarrow> \<not> nullish (s_namespace sel)"
  shows "renders pg l (Suc (Suc (Suc n))) (Comp E_Sidebar)"
proof -
  let ?n = "Suc (Suc n)"
  have "\<exists>v. renderVersion pg = Inr v \<and> renders pg l ?n v"
    using assms(1) by (auto simp: showable_def renderVersion_def Let_def elim!: result_okE)
  then obtain v where v: "renderVersion pg = Inr v" "renders pg l ?n v" by blast
  obtain bs where bs: "renderSpecialBucketButtons pg = Inr bs" "\<forall>b \<in> set bs. renders pg l ?n b"
    using special_buttons_ok [OF assms(2)] by blast
  have "renders pg l ?n (Comp (E_Error e))" if "truthy e" "e = cf_error (rt_configs (p_state pg))" for e
    using assms(1) that renders_error by (simp add: showable_def error_ok_def del: renders_simps)
  then have err: "\<forall>x \<in> set (Sidebar_renderError pg). renders pg l ?n x"
    by (simp add: Sidebar_renderError_def Let_def del: renders_simps)
  have hist: "renders pg l ?n (renderChanges pg)" "renders pg l ?n (renderConfigs pg)"
    using assms(1) renders_changes renders_configs
    by (simp_all add: showable_def renderChanges_def renderConfigs_def del: renders_simps)
  have add: "renders pg l ?n (renderAddNamespace sb)" "\<forall>x \<in> set (renderAddBucket pg sb). renders pg l ?n x"
    for sb by (simp_all add: renderAddNamespace_def renderAddBucket_def)
  show ?thesis
    unfolding renders_simps(3) [of pg l ?n]
    using v bs err hist add [of "l_sidebar l"]
    by (auto simp: Sidebar_render_def simp del: renders_simps(3))
qed

lemma renders_selected:
  assumes "showable l (p_state pg)"
    and "\<And>sel. p_selected pg = Some sel \<Longrightarrow> namespace_ok (s_namespace sel)"
  shows "renders pg l (Suc (Suc (Suc (Suc n)))) (Comp E_SelectedNamespace)"
proof (cases "p_selected pg")
  case (Some sel)
  have "renders pg l (Suc (Suc (Suc n))) (Comp (E_Namespace (s_namespace sel) c))" for c
    using renders_namespace [OF assms(2) [OF Some]] .
  moreover have "renders pg l (Suc (Suc (Suc n))) (Comp (E_Stats (s_namespace sel)))"
    if "st_show (rt_stats (p_state pg))"
    using renders_stats [OF assms(2) [OF Some]] assms(1) that by (simp add: showable_def)
  ultimately show ?thesis
    unfolding renders_simps(3) [of pg l "Suc (Suc (Suc n))"]
    using Some by (auto simp: SelectedNamespace_render_def simp del: renders_simps(3))
qed (simp add: SelectedNamespace_render_def)

lemma renders_page:
  assumes "showable l (p_state pg)"
    and "\<And>sel. p_selected pg = Some sel \<Longrightarrow> namespace_ok (s_namespace sel)"
  shows "\<exists>ds. render_page pg l = Inr ds"
proof -
  let ?four = "Suc (Suc (Suc (Suc 0)))"
  have nn: "\<not> nullish (s_namespace sel)" if "p_selected pg = Some sel" for sel
    using assms(2) [OF that] by (rule namespace_ok_not_nullish)
  have parts: "renders pg l ?four (Comp E_Sidebar)" "renders pg l ?four (Comp E_Namespaces)"
    "renders pg l ?four (Comp E_SelectedNamespace)"
    using renders_sidebar [OF assms(1) nn] Namespaces_ok [OF _ nn] renders_selected [OF assms] assms(1)
    by (simp_all add: showable_def del: renders_simps)
  have "confirm_ok (rt_confirm (p_state pg))" using assms(1) by (simp add: showable_def)
  then have dialog: "\<exists>cs. (case rt_confirm (p_state pg) of None \<Rightarrow> Inr []
      | Some c \<Rightarrow> and_then (renderConfirmation c) (\<lambda>n. Inr [n])) = Inr cs \<and>
      (\<forall>c \<in> set cs. renders pg l ?four c)"
    by (auto simp: confirm_ok_def renderConfirmation_def Confirmation_render_def
        split: option.splits action.splits)
  obtain v where v: "QuotaService_render pg = Inr v" "renders pg l ?four v"
    using dialog parts by (auto simp: QuotaService_render_def Let_def renderLoading_def
        simp del: renders_simps(3))
  then show ?thesis unfolding render_page_def depth_Suc by (auto simp: renders_def simp del: expand.simps)
qed

section \<open>The page as a whole\<close>

text \<open>The selected namespace is in the tree.\<close>

definition selection_present :: "root_state \<Rightarrow> bool" where
  "selection_present s =
     (case rt_selectedNamespace s of
        None \<Rightarrow> True
      | Some sel \<Rightarrow> lookup_in (items (cur (rt_namespaces s))) [sel_namespace sel] \<noteq> None)"

lemma tree_ok_lookup:
  assumes "tree_ok t" "lookup_in t [n] \<noteq> None"
  shows "namespace_ok (im_prop t n)"
proof -
  obtain kvs where t: "t = JObj kvs" "wf_props kvs" using assms(1) by (auto simp: tree_ok_def config_tree_obj)
  then have "map_of kvs n \<noteq> None" using assms(2) by (auto split: option.splits)
  then have "n \<in> set (object_keys kvs)" by (auto simp: set_object_keys map_of_eq_None_iff)
  then show ?thesis using assms(1) t by (simp add: tree_ok_def list_all_iff)
qed

lemma renders_selection:
  assumes "showable l s"
    and "\<And>sel. rt_selectedNamespace s = Some sel \<Longrightarrow> plain_name (sel_namespace sel)"
  shows "(\<exists>ds. render_page (Root_mapState env s) l = Inr ds) \<longleftrightarrow> selection_present s"
proof
  let ?pg = "Root_mapState env s" and ?t = "items (cur (rt_namespaces s))"
  have tree: "tree_ok ?t" "config_tree ?t" using assms(1) by (simp_all add: showable_def tree_ok_def)
  show "selection_present s" if "\<exists>ds. render_page ?pg l = Inr ds"
  proof (rule ccontr)
    assume "\<not> selection_present s"
    then obtain sel where sel: "rt_selectedNamespace s = Some sel" "lookup_in ?t [sel_namespace sel] = None"
      by (auto simp: selection_present_def split: option.splits)
    then have "im_prop ?t (sel_namespace sel) = JUndef"
      using im_prop_absent tree(2) assms(2) by blast
    then have "\<exists>e. render_page ?pg l = Inl e"
      using sel(1) by (intro undefined_selection_fails) (auto simp: Root_mapState_def)
    then show False using that by auto
  qed
  show "\<exists>ds. render_page ?pg l = Inr ds" if "selection_present s"
  proof (rule renders_page)
    show "showable l (p_state ?pg)" using assms(1) by (simp add: Root_mapState_def)
    show "namespace_ok (s_namespace sel)" if "p_selected ?pg = Some sel" for sel
      using that tree_ok_lookup [OF tree(1)] \<open>selection_present s\<close>
      by (auto simp: Root_mapState_def selection_present_def)
  qed
qed

text \<open>
  C8: The page renders, all of it down to the DOM, for every state whose data has the shapes the
  components expect and whose selected namespace is in the tree; and if the selected namespace is
  not in the tree, it does not render, whatever else the state holds.
\<close>

theorem page_renders_iff_selection_present:
  assumes "showable l s"
    and "\<And>sel. rt_selectedNamespace s = Some sel \<Longrightarrow> plain_name (sel_namespace sel)"
  shows "(\<exists>ds. render_page (Root_mapState env s) l = Inr ds) \<longleftrightarrow> selection_present s"
  using renders_selection [OF assms] .

text \<open>A state with one namespace, which is selected.\<close>

definition shown_state :: root_state where
  "shown_state = initial_root\<lparr>
     rt_namespaces := \<lparr> cur = \<lparr> items = JObj [(''ns'', JObj [(''name'', JStr ''ns'')])], version = JNum 3 \<rparr>,
                       hist = no_history \<rparr>,
     rt_selectedNamespace := Some \<lparr> sel_namespace = ''ns'', canMakeChanges = True \<rparr>,
     rt_currentVersion := JNum 3 \<rparr>"

lemma shown_state_showable: "showable sample_locals shown_state"
proof -
  have "array_index ''ns'' = None" by (simp add: array_index_def digit_of_def)
  then have "tree_ok (JObj [(''ns'', JObj [(''name'', JStr ''ns'')])])"
    by (simp add: tree_ok_def config_tree_def safe_key_def immutable_names_def object_keys_def
        namespace_ok_def child_ok_def bucket_ok_def im_prop_def inherited_def object_prototype_def
        bucket_values_def)
  then show ?thesis
    by (simp add: showable_def shown_state_def initial_root_def no_history_def result_ok_def
        INITIAL_CONFIGS_def INITIAL_STATS_def configs_list_ok_def error_ok_def confirm_ok_def)
qed

theorem page_renders_iff_selection_present_witness:
  "showable sample_locals shown_state \<and>
   (\<exists>ds. render_page (Root_mapState sample_env shown_state) sample_locals = Inr ds)"
proof -
  have "selection_present shown_state" by (simp add: selection_present_def shown_state_def)
  moreover have "plain_name (sel_namespace sel)" if "rt_selectedNamespace shown_state = Some sel" for sel
    using that by (auto simp: shown_state_def)
  ultimately show ?thesis
    using page_renders_iff_selection_present [OF shown_state_showable, of sample_env]
      shown_state_showable by blast
qed

end
