(* ===== verification/Page_Editing.thy ===== *)
theory Page_Editing
  imports Page_Rendering
begin

text \<open>
  What the user does through the page: edits keep the selection in the tree, a field writes the
  value it shows, the buttons are there exactly when they have an effect, and a saved configuration
  is loaded again exactly once.
\<close>

section \<open>Edits keep the selection\<close>

lemma lookup_in_prefix: "lookup_in t (p @ q) \<noteq> None \<Longrightarrow> lookup_in t p \<noteq> None"
  by (auto simp: lookup_in_append split: option.splits)

lemma diverge_single: "q \<noteq> [] \<Longrightarrow> \<not> diverge q [m] \<Longrightarrow> \<exists>ks. q = m # ks"
  by (cases q) auto

lemma removeBucket_keeps_namespaces:
  assumes "config_tree (items p)" "plain_name n" "plain_name b"
    and "removeBucket p n (JStr b) = Inr (r, a')" "lookup_in (items p) [m] \<noteq> None"
  shows "lookup_in (items (r_present r)) [m] \<noteq> None"
proof -
  let ?q = "bucket_parent n b"
  obtain kvs where kvs: "items p = JObj kvs" "wf_props kvs" using assms(1) wf_props_items by blast
  obtain sub where sub: "lookup_in (items p) ?q = Some (JObj sub)"
    using removeBucket_success [OF assms(1-4)] by blast
  have q: "config_path ?q" using assms(2) by simp
  have r: "items (r_present r) =
      JObj (set_at kvs ?q (JObj (filter (\<lambda>kv. fst kv \<noteq> bucket_name b) sub)))"
    using assms(4) sub kvs remove_in_tree [OF kvs(2) q, of sub]
    by (auto simp: removeBucket_eq [OF assms(3)])
  show ?thesis
  proof (cases "diverge ?q [m]")
    case True
    then show ?thesis using assms(5) kvs r by (simp add: im_simps del: lookup_in.simps)
  next
    case False
    then obtain ks where "?q = [m] @ ks" using diverge_single [of ?q m] by auto
    moreover have "lookup_in (items (r_present r)) ?q \<noteq> None" using r q by (simp add: im_simps)
    ultimately show ?thesis using lookup_in_prefix [of _ "[m]" ks] by simp
  qed
qed

lemma writes_keep_namespaces:
  assumes "writes_at t q (Some v) t'" "q \<noteq> []" "lookup_in t [m] \<noteq> None"
  shows "lookup_in t' [m] \<noteq> None"
proof (cases "diverge q [m]")
  case True
  then show ?thesis using assms(1,3) by (simp add: writes_at_def)
next
  case False
  then obtain ks where "q = [m] @ ks" using diverge_single [OF assms(2)] by auto
  then show ?thesis using assms(1) lookup_in_prefix [of t' "[m]" ks] by (simp add: writes_at_def)
qed

lemma bucket_path_ne [simp]: "bucket_path n b \<noteq> []"
  by (simp add: bucket_path_def split: option.split)

lemma edit_keeps_namespaces:
  assumes "config_tree (items p)" "safe_edit a" "namespaces p a = Inr (r, a')"
    and "\<And>n. a \<noteq> REMOVE_NAMESPACE n" "lookup_in (items p) [m] \<noteq> None"
  shows "lookup_in (items (r_present r)) [m] \<noteq> None"
proof (cases "\<exists>n b. a = REMOVE_BUCKET n b")
  case True
  then obtain n b where "a = REMOVE_BUCKET n (JStr b)" "plain_name n" "plain_name b"
    using assms(2) by (auto elim!: plain_bucketE)
  then show ?thesis using removeBucket_keeps_namespaces assms(1,3,5) by simp
next
  case False
  then have "\<not> removes_nowhere (items p) a" "\<exists>v. snd (edit_target a) = Some v" "fst (edit_target a) \<noteq> []"
    using assms(2,4) by (cases a; auto elim!: plain_bucketE)+
  then obtain c t v where "r = edited p c t" "writes_at (items p) (fst (edit_target a)) (Some v) t"
    "fst (edit_target a) \<noteq> []"
    using safe_edit_result [OF assms(1,2)] assms(3) by auto
  then show ?thesis using writes_keep_namespaces assms(5) by (simp del: lookup_in.simps)
qed

text \<open>
  An edit never leaves the page with a selection that is missing: if the selected namespace is in
  the tree before an edit with ordinary names, it is (or the newly selected one is, or none is
  selected) after it, so an edit never makes the page impossible to render.
\<close>

lemma edit_keeps_selection:
  assumes "config_tree (items (cur (rt_namespaces s)))" "labelled (rt_namespaces s)"
    and "safe_edit a" "selection_present s" "rootReducer (Some s) a = Inr (s', a')"
  shows "selection_present s'"
proof -
  let ?ns = "rt_namespaces s"
  have edit: "edit_action a" using safe_edit_edits [OF assms(3)] .
  have h: "history_reducer namespaces (Some ?ns) a = Inr (rt_namespaces s', a')"
    and sel: "rt_selectedNamespace s' = selectedNamespace (rt_selectedNamespace s) a'"
    using rootReducer_slices(1,6) [OF assms(5)] by simp_all
  have "reduce namespaces ?ns a = Inr (rt_namespaces s', a')"
    using h edit by (cases a) (auto simp: history_reducer_def)
  then obtain r where r: "namespaces (cur ?ns) a = Inr (r, a')"
    by (auto simp: reduce_def js_simps split: if_splits list.splits)
  then have cur: "cur (rt_namespaces s') = r_present r"
    using ns_history.reduce_edit [OF assms(2) edit r] \<open>reduce namespaces ?ns a = _\<close> by auto
  consider (add) n where "a = ADD_NAMESPACE n" | (remove) n where "a = REMOVE_NAMESPACE n"
    | (other) "\<And>n. a \<noteq> ADD_NAMESPACE n" "\<And>n. a \<noteq> REMOVE_NAMESPACE n" by blast
  then show ?thesis
  proof cases
    case add
    then have a': "a' = ADD_NAMESPACE n" and "plain_name n" using r assms(3) by (auto simp: js_simps)
    then have "lookup_in (items (r_present r)) [n] \<noteq> None"
      using addNamespace_spec [OF assms(1), of n] r add by (auto simp: writes_at_def)
    then show ?thesis using sel a' cur by (auto simp: selection_present_def select_def)
  next
    case remove
    then have "a' = REMOVE_NAMESPACE n" using r by (auto simp: js_simps)
    then show ?thesis using sel by (simp add: selection_present_def)
  next
    case other
    then have "rt_selectedNamespace s' = rt_selectedNamespace s"
      using r sel edit
      by (cases a) (auto simp: js_simps updateBucket_def removeBucket_def Let_def)
    moreover have "lookup_in (items (r_present r)) [m] \<noteq> None"
      if "lookup_in (items (cur ?ns)) [m] \<noteq> None" for m
      using edit_keeps_namespaces [OF assms(1,3) r other(2)] that by blast
    ultimately show ?thesis
      using assms(4) cur by (auto simp: selection_present_def simp del: lookup_in.simps split: option.splits)
  qed
qed

section \<open>The buttons of the sidebar\<close>

definition enabled :: "handler \<Rightarrow> vnode \<Rightarrow> bool" where
  "enabled h v \<longleftrightarrow> h \<in> set (handlers_of v)"

lemma length_past_undo: "length (past (hist (undo s))) = length (past (hist s)) - 1"
  by (simp add: undo_def split: list.split)

lemma length_future_redo: "length (future (hist (redo s))) = length (future (hist s)) - 1"
  by (simp add: redo_def Let_def)

lemma undo_neq: "undo s \<noteq> s \<longleftrightarrow> past (hist s) \<noteq> []"
proof
  assume "past (hist s) \<noteq> []"
  then have "length (past (hist (undo s))) \<noteq> length (past (hist s))"
    by (cases "past (hist s)") (auto simp: length_past_undo)
  then show "undo s \<noteq> s" by auto
qed (auto simp: undo_def)

lemma redo_neq: "redo s \<noteq> s \<longleftrightarrow> future (hist s) \<noteq> []"
proof
  assume "future (hist s) \<noteq> []"
  then have "length (future (hist (redo s))) \<noteq> length (future (hist s))"
    by (cases "future (hist s)") (auto simp: length_future_redo)
  then show "redo s \<noteq> s" by auto
qed (auto simp: redo_def)

text \<open>
  Undo is offered exactly when it changes the state, and so is Redo; and the list below the
  buttons shows every entry of the history, the ones that can be redone before the ones that can
  be undone, or says that there are none.
\<close>

lemma undo_redo_offered_iff_effective:
  "(enabled H_undo (Changes_render (hist s)) \<longleftrightarrow> undo s \<noteq> s) \<and>
   (enabled H_redo (Changes_render (hist s)) \<longleftrightarrow> redo s \<noteq> s) \<and>
   renderChanges_list (hist s) = El ''div'' [cls ''changes'']
     (if past (hist s) @ future (hist s) = []
      then [El ''div'' [cls ''change future''] [Txt ''no changes recorded'']]
      else map (\<lambda>e. Comp (E_Change ''future'' (e_change e))) (future (hist s))
           @ map (\<lambda>e. Comp (E_Change ''past'' (e_change e))) (past (hist s)))"
  by (auto simp: undo_neq redo_neq enabled_def Changes_render_def renderChanges_list_def
      attr_handlers_def cls_def)

section \<open>Editing through the page\<close>

lemma store_safe_edit:
  assumes "labelled (rt_namespaces (store w))" "config_tree (items (cur (rt_namespaces (store w))))"
    and "safe_edit a" "\<not> removes_nowhere (items (cur (rt_namespaces (store w)))) a"
  shows "\<exists>a'. rt_selectedNamespace (store (handle_event w (Thk (Runs a)))) =
         selectedNamespace (rt_selectedNamespace (store w)) a' \<and>
       edit_action a' \<and> action_type a' = action_type a \<and>
       writes_at (items (cur (rt_namespaces (store w)))) (fst (edit_target a)) (snd (edit_target a))
         (items (cur (rt_namespaces (store (handle_event w (Thk (Runs a)))))))"
proof -
  let ?ns = "rt_namespaces (store w)"
  have edit: "edit_action a" using safe_edit_edits [OF assms(3)] .
  obtain c t a' where r: "namespaces (cur ?ns) a = Inr (edited (cur ?ns) c t, a')"
    and wr: "writes_at (items (cur ?ns)) (fst (edit_target a)) (snd (edit_target a)) t"
    using safe_edit_result [OF assms(2-4)] by blast
  have st: "store (handle_event w (Thk (Runs a))) =
      (store w)\<lparr> rt_namespaces := apply_action namespaces ?ns a,
                 rt_selectedNamespace := selectedNamespace (rt_selectedNamespace (store w)) a',
                 rt_confirm := None \<rparr>"
    using store_edit [OF assms(1) edit r] .
  have "history_reducer namespaces (Some ?ns) a = reduce namespaces ?ns a"
    using edit by (cases a) (auto simp: history_reducer_def)
  then have "items (cur (apply_action namespaces ?ns a)) = t"
    using ns_history.reduce_edit_eq [OF assms(1) edit r] by (simp add: apply_action_def)
  moreover have "edit_action a' \<and> action_type a' = action_type a"
    using r edit by (cases a) (auto simp: js_simps updateBucket_def removeBucket_def Let_def)
  ultimately show ?thesis using st wr by (intro exI [of _ a']) simp
qed

text \<open>The field of a bucket as the page shows it, for a bucket called b in a namespace called n.\<close>

definition shown_bucket_field :: "string \<Rightarrow> props \<Rightarrow> string \<Rightarrow> string \<Rightarrow> field_props" where
  "shown_bucket_field n bucket b key =
     \<lparr> fp_keyName = key, fp_parent = JStr b, fp_disabled = False, fp_value = im_prop (JObj bucket) key,
       fp_target = Of_bucket (JStr n) (JStr b), fp_title = [], fp_placeholder = None \<rparr>"



section \<open>The buttons for the special buckets\<close>

text \<open>The names of the special buckets that a namespace does not have yet.\<close>

definition missing_special :: "jsval \<Rightarrow> string list" where
  "missing_special namespace =
     map fst (filter (\<lambda>(name, key). \<not> truthy (prop_of namespace (to_str key))) BUCKET_KEY_MAP)"

lemma map_result_special_button:
  assumes "\<not> nullish namespace"
  shows "\<exists>bs. map_result (special_button namespace) ps = Inr bs \<and>
     concat (map handlers_of (concat bs)) =
       map (\<lambda>p. H_add_bucket (Some (fst p)))
         (filter (\<lambda>(name, key). \<not> truthy (prop_of namespace (to_str key))) ps)"
proof (induction ps)
  case (Cons p ps)
  then show ?case
    using assms
    by (cases p) (auto simp: special_button_def get_prop_def attr_handlers_def cls_def)
qed simp

lemma special_buttons_handlers:
  assumes "p_selected pg = Some sel" "s_canMakeChanges sel" "\<not> nullish (s_namespace sel)"
  shows "\<exists>bs. renderSpecialBucketButtons pg = Inr bs \<and>
     concat (map handlers_of bs) = map (\<lambda>b. H_add_bucket (Some b)) (missing_special (s_namespace sel))"
proof -
  obtain bs where bs: "map_result (special_button (s_namespace sel)) BUCKET_KEY_MAP = Inr bs"
    "concat (map handlers_of (concat bs)) =
       map (\<lambda>b. H_add_bucket (Some b)) (missing_special (s_namespace sel))"
    using map_result_special_button [OF assms(3), of BUCKET_KEY_MAP]
    by (auto simp: missing_special_def o_def)
  then show ?thesis
    using assms(1,2)
    by (cases "concat bs = []")
       (auto simp: renderSpecialBucketButtons_def Sidebar_canMakeChanges_def simp del: concat_eq_Nil_conv)
qed

lemma missing_special_iff:
  "special_key b = Some k \<Longrightarrow> b \<in> set (missing_special ns) \<longleftrightarrow> \<not> truthy (prop_of ns k)"
  by (auto simp: missing_special_def BUCKET_KEY_MAP_def special_key_def split: if_splits)

text \<open>Whether the sidebar of a state offers the button of one special bucket.\<close>

lemma special_button_offered:
  assumes "rt_selectedNamespace s = Some \<lparr> sel_namespace = n, canMakeChanges = True \<rparr>"
    and "im_prop (items (cur (rt_namespaces s))) n = JObj ns" "special_key b = Some k"
  shows "\<exists>bs. renderSpecialBucketButtons (Root_mapState env s) = Inr bs \<and>
     (H_add_bucket (Some b) \<in> set (concat (map handlers_of bs)) \<longleftrightarrow> \<not> truthy (prop_of (JObj ns) k))"
proof -
  obtain bs where bs: "renderSpecialBucketButtons (Root_mapState env s) = Inr bs"
    "concat (map handlers_of bs) = map (\<lambda>b. H_add_bucket (Some b)) (missing_special (JObj ns))"
    using special_buttons_handlers [of "Root_mapState env s"] assms(1,2)
    by (auto simp: Root_mapState_def)
  have "H_add_bucket (Some b) \<in> set (concat (map handlers_of bs)) \<longleftrightarrow>
      \<not> truthy (prop_of (JObj ns) k)"
    unfolding bs(2) using missing_special_iff [OF assms(3), of "JObj ns"]
    by (auto simp del: prop_of.simps)
  then show ?thesis using bs(1) by blast
qed

text \<open>What adding a special bucket leaves in the store.\<close>

lemma added_special_bucket:
  assumes "labelled (rt_namespaces (store w))" "config_tree (items (cur (rt_namespaces (store w))))"
    and "plain_name n" "special_key b = Some k"
  defines "s' \<equiv> store (handle_event w (Thk (Runs (ADD_BUCKET n (JStr b)))))"
    and "new \<equiv> JObj [(''name'', JStr b), (''namespace'', JStr n)]"
  shows "rt_selectedNamespace s' = rt_selectedNamespace (store w)"
    and "lookup_in (items (cur (rt_namespaces s'))) [n, k] = Some new"
    and "\<exists>ns'. im_prop (items (cur (rt_namespaces s'))) n = JObj ns' \<and> map_of ns' k = Some new"
proof -
  let ?t = "items (cur (rt_namespaces (store w)))" and ?a = "ADD_BUCKET n (JStr b)"
  let ?t' = "items (cur (rt_namespaces s'))"
  have b: "plain_name b" "bucket_path n b = [n, k]"
    using assms(4) by (auto simp: special_key_def bucket_path_def split: if_splits)
  then have "safe_edit ?a" using assms(3) by simp
  then obtain a' where a': "edit_action a'" "action_type a' = ''ADD_BUCKET''"
    "rt_selectedNamespace s' = selectedNamespace (rt_selectedNamespace (store w)) a'"
    "writes_at ?t [n, k] (Some new) ?t'"
    using store_safe_edit [OF assms(1,2), of ?a] b(2) by (auto simp: s'_def new_def)
  then show "rt_selectedNamespace s' = rt_selectedNamespace (store w)" by (cases a') auto
  show written: "lookup_in ?t' [n, k] = Some new"
    using a'(4) by (simp add: writes_at_def del: lookup_in.simps)
  obtain kvs' where kvs': "?t' = JObj kvs'" "wf_props kvs'"
    using a'(4) by (auto simp: writes_at_def config_tree_obj)
  then obtain ns' where "map_of kvs' n = Some (JObj ns')" "lookup_in (JObj ns') [k] = Some new"
    using lookup_in_Cons2 [of kvs' n k "[]"] written by auto
  then show "\<exists>ns'. im_prop ?t' n = JObj ns' \<and> map_of ns' k = Some new"
    using kvs' by (auto simp: im_prop_wf split: option.splits)
qed

text \<open>
  C30: The sidebar offers, to a user who may make changes, one button for each special bucket that the
  selected namespace does not have, and no other; pressing one adds that bucket to that namespace,
  in the field reserved for it, after which the button is gone.
\<close>

theorem special_bucket_button_adds_once:
  assumes "labelled (rt_namespaces (store w))" "config_tree (items (cur (rt_namespaces (store w))))"
    and "rt_selectedNamespace (store w) = Some \<lparr> sel_namespace = n, canMakeChanges = True \<rparr>" "plain_name n"
    and "lookup_in (items (cur (rt_namespaces (store w)))) [n] = Some (JObj ns)"
    and "map_of ns ''name'' = Some (JStr n)" "special_key b = Some k"
  shows "let pg = Root_mapState env (store w);
             w' = handle_event w (Thk (addBucket_thunk n b));
             pg' = Root_mapState env (store w')
         in (\<exists>bs. renderSpecialBucketButtons pg = Inr bs \<and>
               (H_add_bucket (Some b) \<in> set (concat (map handlers_of bs)) \<longleftrightarrow>
                \<not> truthy (prop_of (JObj ns) k))) \<and>
            handleAddBucket pg (Some b) sb = (sb, Inr (Some (addBucket_thunk n b))) \<and>
            lookup_in (items (cur (rt_namespaces (store w')))) [n, k] =
              Some (JObj [(''name'', JStr b), (''namespace'', JStr n)]) \<and>
            (\<exists>bs'. renderSpecialBucketButtons pg' = Inr bs' \<and>
               H_add_bucket (Some b) \<notin> set (concat (map handlers_of bs')))"
proof -
  have ns: "im_prop (items (cur (rt_namespaces (store w)))) n = JObj ns"
    using assms(2,5) by (auto simp: config_tree_obj im_simps split: option.splits)
  note added = added_special_bucket [OF assms(1,2,4,7)]
  obtain ns' where "im_prop (items (cur (rt_namespaces
      (store (handle_event w (Thk (Runs (ADD_BUCKET n (JStr b))))))))) n = JObj ns'"
    and ns': "map_of ns' k = Some (JObj [(''name'', JStr b), (''namespace'', JStr n)])"
    using added(3) by blast
  then have "\<exists>bs'. renderSpecialBucketButtons (Root_mapState env
        (store (handle_event w (Thk (Runs (ADD_BUCKET n (JStr b))))))) = Inr bs' \<and>
      H_add_bucket (Some b) \<notin> set (concat (map handlers_of bs'))"
    using special_button_offered [OF _ _ assms(7), of _ n ns' env] added(1) assms(3) by auto
  moreover have "handleAddBucket (Root_mapState env (store w)) (Some b) sb =
      (sb, Inr (Some (addBucket_thunk n b)))"
    using assms(3,6,7) ns
    by (auto simp: handleAddBucket_def Root_mapState_def get_prop_def special_key_def split: if_splits)
  ultimately show ?thesis
    using special_button_offered [OF assms(3) ns assms(7), of env] added(2)
    unfolding Let_def addBucket_thunk_def by blast
qed

definition bucketless_world :: world where
  "bucketless_world = initial_world\<lparr> store := shown_state \<rparr>"

theorem special_bucket_button_adds_once_witness:
  "special_key ''___DEFAULT_BUCKET___'' = Some ''default_bucket'' \<and>
   lookup_in (items (cur (rt_namespaces (store (handle_event bucketless_world
       (Thk (addBucket_thunk ''ns'' ''___DEFAULT_BUCKET___'')))))))
     [''ns'', ''default_bucket''] =
   Some (JObj [(''name'', JStr ''___DEFAULT_BUCKET___''), (''namespace'', JStr ''ns'')])"
proof -
  have "labelled (rt_namespaces (store bucketless_world))"
    "config_tree (items (cur (rt_namespaces (store bucketless_world))))"
    "rt_selectedNamespace (store bucketless_world) = Some \<lparr> sel_namespace = ''ns'', canMakeChanges = True \<rparr>"
    "lookup_in (items (cur (rt_namespaces (store bucketless_world)))) [''ns''] =
       Some (JObj [(''name'', JStr ''ns'')])"
    by (simp_all add: bucketless_world_def shown_state_def config_tree_def safe_key_def
        immutable_names_def)
  moreover have sk: "special_key ''___DEFAULT_BUCKET___'' = Some ''default_bucket''"
    by (simp add: special_key_def)
  ultimately show ?thesis
    using special_bucket_button_adds_once [of bucketless_world "''ns''" "[(''name'', JStr ''ns'')]"
        "''___DEFAULT_BUCKET___''" "''default_bucket''" sample_env sidebar_initial]
    by (simp add: Let_def del: lookup_in.simps prop_of.simps)
qed

section \<open>Saving and loading again\<close>

lemma fetchData_configs:
  "\<not> needs_refetch (store (fetchData env w)) \<and>
   Await_configs (env_capabilities env) \<in> set (pending (fetchData env w))"
  by (simp add: fetchData_def fetchConfigs_start_eq needs_refetch_def)

lemma deliver_no_refetch:
  assumes "answers (Await_configs follow) ans"
  shows "\<not> needs_refetch (store (deliver w (Await_configs follow) ans))"
proof -
  obtain w' v where w': "fetchConfigs_finish w ans = (w', v)" by (cases "fetchConfigs_finish w ans")
  have "\<not> needs_refetch (store w')"
    using fetch_finish_cases [OF assms w'] by (auto simp: needs_refetch_def)
  moreover have "rt_configs (store (fetchCapabilities_start w' v)) = rt_configs (store w')"
    by (simp add: fetchCapabilities_start_store base_dispatch_configs)
  ultimately show ?thesis using w' by (simp add: needs_refetch_def)
qed

lemma truthy_failures: "truthy (error_object n m)" "truthy (api_error s t v)"
  by (simp_all add: error_object_def api_error_def)

text \<open>
  C12: A save that the server accepts makes the page load the configurations again, once: the answer
  leaves the slice in the state that triggers a load when the new properties arrive, starting the
  load leaves that state, and no answer to the load, good or bad, leads back to it. A save that is
  rejected or does not reach the server triggers no load.
\<close>

theorem save_reloads_once:
  assumes "commit_call r" "answers (Await_api r) ans"
  shows "let w1 = deliver w (Await_api r) ans; w2 = willReceiveProps env w1 in
         (needs_refetch (store w1) \<longleftrightarrow>
           (\<exists>status reason is_json body v. ans = Response True status reason is_json body \<and>
              getJSON status is_json body = Inr v)) \<and>
         \<not> needs_refetch (store w2) \<and>
         (needs_refetch (store w1) \<longrightarrow> Await_configs (env_capabilities env) \<in> set (pending w2)) \<and>
         (\<forall>ans' w3. answers (Await_configs (env_capabilities env)) ans' \<longrightarrow>
            \<not> needs_refetch (store (deliver w3 (Await_configs (env_capabilities env)) ans')))"
proof -
  let ?w1 = "deliver w (Await_api r) ans"
  have slice: "rt_configs (store ?w1) = commit_outcome (rt_configs (store w)) ans"
    using commit_store [OF assms] by simp
  have "needs_refetch (store ?w1) \<longleftrightarrow>
      (\<exists>status reason is_json body v. ans = Response True status reason is_json body \<and>
         getJSON status is_json body = Inr v)"
    unfolding needs_refetch_def slice using assms(2)
    by (cases ans) (auto simp: handleConfigsFailure_def truthy_failures INITIAL_CONFIGS_def
        split: sum.splits)
  then show ?thesis
    using fetchData_configs [of env ?w1] deliver_no_refetch by (auto simp: Let_def willReceiveProps_def)
qed

theorem save_reloads_once_witness:
  "needs_refetch (store (deliver initial_world (Await_api sample_commit)
     (Response True 200 ''OK'' True (Inr (JObj []))))) \<and>
   \<not> needs_refetch (store (willReceiveProps sample_env (deliver initial_world (Await_api sample_commit)
     (Response True 200 ''OK'' True (Inr (JObj []))))))"
proof -
  have "commit_call sample_commit"
    by (simp add: sample_commit_def commit_call_def validateRSAA_def)
  then show ?thesis
    using save_reloads_once [of sample_commit "Response True 200 ''OK'' True (Inr (JObj []))"
      initial_world sample_env]
    by (auto simp: Let_def getJSON_def simp del: deliver.simps)
qed

section \<open>Tiles and search\<close>

lemma store_select:
  "rt_selectedNamespace (store (trigger_handler env w (H_select (JStr n) can))) = select (Some n) can"
  by (simp add: trigger_handler_def handle_event_def selectNamespace_thunk_def dispatch_action_def
      base_dispatch_def rootReducer_def history_reducer_def reduce_def is_mutable_def
      mutable_exports_def Let_def split: option.split)

text \<open>
  What a tile relies on: code outside the page answers the event \<open>QuotaService.getCapabilities\<close> for
  a namespace by calling the callback of the event. \<open>answer h n\<close> is what the callback is called with
  (\<open>None\<close>: it is not called), \<open>known\<close> the names the hook can answer for and \<open>allowed\<close> the
  permission it is meant to report.
\<close>

locale capability_hook =
  fixes answer :: "'h \<Rightarrow> string \<Rightarrow> jsval option"
    and known :: "'h \<Rightarrow> string \<Rightarrow> bool"
    and allowed :: "'h \<Rightarrow> string \<Rightarrow> bool"
  assumes answers_permission: "known h n \<Longrightarrow> answer h n = Some (JBool (allowed h n))"
begin

lemma tile_click:
  assumes "tp_capabilitiesEnabled p" "im_prop (tp_namespace p) ''name'' = JStr n" "known h n"
  shows "\<exists>v. answer h n = Some v \<and>
    tile_onClick p (tile_callback v st) = H_select (JStr n) (allowed h n)"
  using assms
  by (simp add: answers_permission tile_onClick_def tile_callback_def tile_canMakeChanges_def)

lemma click_selects_with_permission:
  assumes "tp_capabilitiesEnabled p" "im_prop (tp_namespace p) ''name'' = JStr n" "known h n" "n \<noteq> []"
  shows "\<exists>v. answer h n = Some v \<and>
    rt_selectedNamespace (store (trigger_handler env w (tile_onClick p (tile_callback v st)))) =
      Some \<lparr> sel_namespace = n, canMakeChanges = allowed h n \<rparr>"
  using tile_click [OF assms(1-3), of st] assms(4) by (auto simp: store_select select_def)

end

text \<open>
  A tile asks for the permission of its namespace at most once, and only when capabilities are
  enabled; until an answer is there, and whenever capabilities are off, a click selects the
  namespace with permission to change it; after an answer of false it selects it without, and the
  tile is shown as disabled.
\<close>

lemma tile_permission:
  assumes "im_prop (tp_namespace p) ''name'' = JStr n"
  shows "tile_onClick p tile_initial = H_select (JStr n) True \<and>
         (\<not> tp_capabilitiesEnabled p \<longrightarrow>
            tile_onClick p st = H_select (JStr n) True \<and> tile_willMount p st = None) \<and>
         (tp_capabilitiesEnabled p \<longrightarrow>
            tile_onClick p (tile_callback v st) = H_select (JStr n) (v \<noteq> JBool False)) \<and>
         tile_willMount p (tile_callback v st) = None \<and>
         (\<forall>node. NamespaceTile_render p (tile_callback v st) = Inr node \<longrightarrow>
            (\<exists>cs. node = El ''div'' [cls (''flex-box flex-tile namespace''
                 @ (if tp_isSelected p then '' selected'' else [])
                 @ (if tp_capabilitiesEnabled p \<and> v = JBool False then '' disabled'' else [])),
               (''onClick'', A_on (tile_onClick p (tile_callback v st)))] cs))"
  using assms
  by (auto simp: tile_onClick_def tile_initial_def tile_callback_def tile_canMakeChanges_def
      tile_willMount_def fetchCanMakeChanges_def NamespaceTile_render_def Let_def js_simps
      split: if_splits)

text \<open>
  Typing into the search field sends one request, for the text that was there last: however many
  changes come before the timer fires, one request for the last text goes out, for the namespace
  that was shown when it was typed, and no second one follows.
\<close>

lemma search_sends_last_text_once:
  "let st1 = handleSearchChange ns (fold (\<lambda>(m, v) s. handleSearchChange m s v) earlier st) text_typed;
       (st2, sent) = searchStats st1
   in sent = Some (fetchStats_thunk (to_str (im_prop ns ''name'')) (Some text_typed)) \<and>
      sv_searchValue st1 = text_typed \<and> snd (searchStats st2) = None"
  by (simp add: handleSearchChange_def searchStats_def)

end
