(* ===== verification/Capabilities_Example.thy ===== *)
theory Capabilities_Example
  imports Page_Editing
begin

text \<open>
  The example of a capabilities hook (\<^verbatim>\<open>src/admin/public/examples/capabilities.js\<close>) and the entry
  point of the page (\<^verbatim>\<open>src/admin/public/src/index.jsx\<close>), which turns the hook's flag into the
  page's environment.

  The hook keeps one promise: \<open>None\<close> before the first fetch, otherwise the outcome of the request
  (an argument here: the server's answer), transformed. A promise that was rejected calls nobody.
\<close>

section \<open>capabilities.js\<close>

text \<open>\<open>name.split(/:/)[0]\<close>\<close>

definition application_name :: "string \<Rightarrow> string" where
  "application_name s = takeWhile (\<lambda>c. c \<noteq> CHR '':'') s"

definition privileged :: "string list" where
  "privileged = [''deployers'', ''owners'']"

text \<open>\<open>groups.find(...) !== undefined\<close>; only arrays have \<open>find\<close>.\<close>

definition has_privileged :: "jsval \<Rightarrow> bool result" where
  "has_privileged groups =
     (case groups of
        JUndef \<Rightarrow> Inl (TypeError ''Cannot read property find'')
      | JNull \<Rightarrow> Inl (TypeError ''Cannot read property find'')
      | JArr gs \<Rightarrow> Inr (\<exists>g \<in> set gs. g \<in> JStr ` set privileged)
      | _ \<Rightarrow> Inl (TypeError ''find is not a function''))"

text \<open>The loop over the keys; each turn reads the raw capabilities under the shortened name.\<close>

fun transform_loop :: "jsval \<Rightarrow> string list \<Rightarrow> props \<Rightarrow> props result" where
  "transform_loop raw [] acc = Inr acc"
| "transform_loop raw (k # ks) acc =
     and_then (has_privileged (prop_of raw (application_name k))) (\<lambda>b.
       transform_loop raw ks (put_prop acc (application_name k) (JBool b)))"

definition transformRawCapabilities :: "jsval \<Rightarrow> props result" where
  "transformRawCapabilities raw =
     (if nullish raw then Inl (TypeError ''Cannot convert undefined or null to object'')
      else transform_loop raw (object_keys (own_props raw)) [])"

text \<open>The two listeners: what the promise becomes, and what the callback is called with, if it is.\<close>

definition on_fetchCapabilities :: "jsval result \<Rightarrow> props result" where
  "on_fetchCapabilities response = and_then response transformRawCapabilities"

definition fetched_callback :: "props result \<Rightarrow> answer option" where
  "fetched_callback caps =
     (case caps of Inl _ \<Rightarrow> None | Inr c \<Rightarrow> Some (Capabilities_callback (JObj c)))"

definition on_getCapabilities :: "props result option \<Rightarrow> string \<Rightarrow> jsval option" where
  "on_getCapabilities caps namespaceName =
     (case caps of
        None \<Rightarrow> Some (JBool False)
      | Some (Inl _) \<Rightarrow> None
      | Some (Inr c) \<Rightarrow>
          Some (JBool (prop_of (JObj c) (application_name namespaceName) = JBool True)))"

section \<open>index.jsx\<close>

definition page_environment :: "string option \<Rightarrow> jsval \<Rightarrow> environment" where
  "page_environment node_env flag =
     \<lparr> env_environment = (case node_env of
                            Some e \<Rightarrow> if e = [] then ''development'' else e
                          | None \<Rightarrow> ''development''),
       env_capabilities = (flag = JBool True) \<rparr>"

section \<open>Lemmas\<close>

lemma application_name_id: "CHR '':'' \<notin> set s \<Longrightarrow> application_name s = s"
  unfolding application_name_def by (rule takeWhile_eq_all_conv [THEN iffD2]) auto

lemma application_name_idem [simp]: "application_name (application_name s) = application_name s"
  by (simp add: application_name_def takeWhile_idem)

text \<open>What the answer is meant to be: whether the application has a privileged group.\<close>

definition may_change :: "props \<Rightarrow> string \<Rightarrow> bool" where
  "may_change raw n =
     (case map_of raw n of Some (JArr gs) \<Rightarrow> (\<exists>g \<in> set gs. g \<in> JStr ` set privileged) | _ \<Rightarrow> False)"

lemma transform_loop_spec:
  assumes "\<And>k. k \<in> set ks \<Longrightarrow> application_name k = k \<and> k \<noteq> ''__proto__'' \<and>
             (\<exists>gs. map_of raw k = Some (JArr gs))"
  shows "\<exists>caps. transform_loop (JObj raw) ks acc = Inr caps \<and>
           (\<forall>n. map_of caps n = (if n \<in> set ks then Some (JBool (may_change raw n)) else map_of acc n))"
  using assms
proof (induction ks arbitrary: acc)
  case (Cons k ks)
  obtain gs where k: "application_name k = k" "k \<noteq> ''__proto__''" "map_of raw k = Some (JArr gs)"
    using Cons.prems [of k] by auto
  then have "has_privileged (prop_of (JObj raw) k) = Inr (may_change raw k)"
    by (simp add: has_privileged_def may_change_def)
  then show ?case
    using Cons.IH [of "put_prop acc k (JBool (may_change raw k))"] Cons.prems k
    by (auto simp: js_simps)
qed simp

section \<open>The example as a hook of the page\<close>

definition hook_answer :: "props \<Rightarrow> string \<Rightarrow> jsval option" where
  "hook_answer raw n = on_getCapabilities (Some (on_fetchCapabilities (Inr (JObj raw)))) n"

text \<open>
  The lists of groups the transformation can read, and the names it can look up: application names
  without a colon, none of them a member of every object.
\<close>

definition hook_known :: "props \<Rightarrow> string \<Rightarrow> bool" where
  "hook_known raw n \<longleftrightarrow>
     distinct (map fst raw) \<and>
     list_all (\<lambda>(k, v). CHR '':'' \<notin> set k \<and> k \<noteq> ''__proto__'' \<and> (case v of JArr _ \<Rightarrow> True | _ \<Rightarrow> False)) raw \<and>
     application_name n \<notin> set object_prototype \<and> application_name n \<noteq> ''__proto__''"

definition hook_allowed :: "props \<Rightarrow> string \<Rightarrow> bool" where
  "hook_allowed raw n = may_change raw (application_name n)"

lemma transform_known:
  assumes "hook_known raw n"
  shows "\<exists>caps. transformRawCapabilities (JObj raw) = Inr caps \<and>
    (\<forall>m. map_of caps m = (if m \<in> fst ` set raw then Some (JBool (may_change raw m)) else None))"
proof -
  have "\<exists>caps. transform_loop (JObj raw) (object_keys raw) [] = Inr caps \<and>
      (\<forall>n. map_of caps n = (if n \<in> set (object_keys raw) then Some (JBool (may_change raw n)) else map_of [] n))"
  proof (rule transform_loop_spec)
    fix k assume "k \<in> set (object_keys raw)"
    then obtain v where v: "(k, v) \<in> set raw" by (auto simp: set_object_keys)
    then have "CHR '':'' \<notin> set k \<and> k \<noteq> ''__proto__'' \<and> (case v of JArr _ \<Rightarrow> True | _ \<Rightarrow> False)"
      using assms by (auto simp: hook_known_def list_all_iff)
    then show "application_name k = k \<and> k \<noteq> ''__proto__'' \<and> (\<exists>gs. map_of raw k = Some (JArr gs))"
      using assms v by (cases v) (auto simp: application_name_id hook_known_def)
  qed
  then show ?thesis by (auto simp: transformRawCapabilities_def set_object_keys)
qed

lemma hook_answers: "hook_known raw n \<Longrightarrow> hook_answer raw n = Some (JBool (hook_allowed raw n))"
proof -
  assume known: "hook_known raw n"
  then obtain caps where caps: "transformRawCapabilities (JObj raw) = Inr caps"
    "\<And>m. map_of caps m = (if m \<in> fst ` set raw then Some (JBool (may_change raw m)) else None)"
    using transform_known by blast
  have "\<not> may_change raw m" if "m \<notin> fst ` set raw" for m
    using that by (simp add: may_change_def map_of_eq_None_iff [THEN iffD2])
  then have "(prop_of (JObj caps) (application_name n) = JBool True) = hook_allowed raw n"
    using known by (auto simp: caps(2) inherited_def hook_known_def hook_allowed_def)
  then show ?thesis
    using caps(1) by (simp add: hook_answer_def on_getCapabilities_def on_fetchCapabilities_def)
qed

interpretation example_hook: capability_hook hook_answer hook_known hook_allowed
  by unfold_locales (rule hook_answers)

section \<open>Properties\<close>


definition example_tile :: tile_props where
  "example_tile = \<lparr> tp_capabilities = [], tp_capabilitiesEnabled = True, tp_isSelected = False,
     tp_namespace = JObj [(''name'', JStr ''shop:eu'')] \<rparr>"

definition example_groups :: props where
  "example_groups =
     [(''shop'', JArr [JStr ''readers'', JStr ''owners'']), (''mail'', JArr [JStr ''readers''])]"




end
