(* ===== verification/Dev_Server.thy ===== *)
theory Dev_Server
  imports Page_Editing Complex_Main
begin

text \<open>
  The server for development (\<^verbatim>\<open>src/admin/public/server.js\<close>): the handler that makes up statistics.

  \<open>Math.random()\<close> is a stream of numbers, read from a position that every call advances; the text
  that the package \<open>randomstring\<close> returns is a function of that position, an argument of the model.
  The two other handlers send a file as it is, and the rest of the file starts the server.
\<close>

section \<open>The handler\<close>

definition js_round :: "real \<Rightarrow> int" where
  "js_round x = \<lfloor>x + 1 / 2\<rfloor>"

definition result_entry :: "(nat \<Rightarrow> real) \<Rightarrow> (nat \<Rightarrow> string) \<Rightarrow> nat \<Rightarrow> jsval" where
  "result_entry random generate_string s =
     JObj [(''bucket'', JStr (generate_string s)), (''value'', JNum (js_round (random s * 1000) + 1000))]"

function fill_loop ::
  "(nat \<Rightarrow> real) \<Rightarrow> (nat \<Rightarrow> string) \<Rightarrow> nat \<Rightarrow> jsval list \<Rightarrow> nat \<Rightarrow> jsval list \<times> nat" where
  "fill_loop random generate_string i results s =
     (if i < length results
      then fill_loop random generate_string (Suc i) (results[i := result_entry random generate_string s]) (Suc s)
      else (results, s))"
  by auto
termination
  by (relation "measure (\<lambda>(random, generate_string, i, results, s). length results - i)") auto

declare fill_loop.simps [simp del]

definition generate :: "(nat \<Rightarrow> real) \<Rightarrow> (nat \<Rightarrow> string) \<Rightarrow> nat \<Rightarrow> jsval list \<times> nat" where
  "generate random generate_string s =
     fill_loop random generate_string 0 (replicate (nat (js_round (random s * 5) + 5)) JUndef) (Suc s)"

definition stats_body :: "(nat \<Rightarrow> real) \<Rightarrow> (nat \<Rightarrow> string) \<Rightarrow> nat \<Rightarrow> string \<Rightarrow> props \<times> nat" where
  "stats_body random generate_string s namespace =
     (let (topHits, s1) = generate random generate_string s;
          (topMisses, s2) = generate random generate_string s1
      in ([(''namespace'', JStr namespace), (''topHits'', JArr topHits), (''topMisses'', JArr topMisses)], s2))"

section \<open>The loop fills every place\<close>

lemma fill_loop_spec:
  "i \<le> length results \<Longrightarrow>
   fill_loop random generate_string i results s =
     (take i results @ map (\<lambda>j. result_entry random generate_string (s + j)) [0..<length results - i],
      s + (length results - i))"
proof (induction random generate_string i results s rule: fill_loop.induct)
  case (1 random generate_string i results s)
  show ?case
  proof (cases "i < length results")
    case False
    then show ?thesis using "1.prems" by (subst fill_loop.simps) simp
  next
    case True
    let ?e = "result_entry random generate_string"
    define k where "k = length results - Suc i"
    have k: "length results - i = Suc k" using True by (simp add: k_def)
    have "fill_loop random generate_string i results s =
        (take (Suc i) (results[i := ?e s]) @ map (\<lambda>j. ?e (Suc s + j)) [0..<k], Suc s + k)"
      using 1 True by (simp add: fill_loop.simps [of random generate_string i] k_def)
    moreover have "take (Suc i) (results[i := ?e s]) = take i results @ [?e s]"
      using True by (simp add: take_Suc_conv_app_nth)
    moreover have "map (\<lambda>j. ?e (s + j)) [0..<Suc k] = ?e s # map (\<lambda>j. ?e (Suc s + j)) [0..<k]"
      by (simp add: upt_conv_Cons map_Suc_upt [symmetric] del: upt_Suc)
    ultimately show ?thesis by (simp only: k append_assoc append_Cons append_Nil add_Suc_right add_Suc)
  qed
qed

lemma js_round_random:
  assumes "0 \<le> x" "x < 1" "0 < n"
  shows "0 \<le> js_round (x * real n)" "js_round (x * real n) \<le> int n"
proof -
  have "x * real n < real n" using assms by simp
  then show "js_round (x * real n) \<le> int n" by (simp add: js_round_def floor_le_iff)
  have "0 \<le> x * real n" using assms by simp
  then show "0 \<le> js_round (x * real n)" by (simp add: js_round_def le_floor_iff)
qed

definition random_numbers :: "(nat \<Rightarrow> real) \<Rightarrow> bool" where
  "random_numbers random \<longleftrightarrow> (\<forall>i. 0 \<le> random i \<and> random i < 1)"

definition made_up :: "jsval \<Rightarrow> bool" where
  "made_up v \<longleftrightarrow> (\<exists>b n. v = JObj [(''bucket'', JStr b), (''value'', JNum n)] \<and> 1000 \<le> n \<and> n \<le> 2000)"

lemma result_entry_made_up: "random_numbers random \<Longrightarrow> made_up (result_entry random generate_string s)"
  using js_round_random [of "random s" 1000]
  by (simp add: random_numbers_def made_up_def result_entry_def)

lemma generate_spec:
  assumes "random_numbers random"
  shows "\<exists>xs s'. generate random generate_string s = (xs, s') \<and> 5 \<le> length xs \<and> length xs \<le> 10 \<and>
    s' = s + 1 + length xs \<and> list_all made_up xs"
proof -
  define n where "n = nat (js_round (random s * 5) + 5)"
  have "5 \<le> n" "n \<le> 10"
    using js_round_random [of "random s" 5] assms by (auto simp: random_numbers_def n_def)
  then show ?thesis
    using fill_loop_spec [of 0 "replicate n JUndef" random generate_string "Suc s"]
      result_entry_made_up [OF assms]
    by (simp add: generate_def n_def list_all_iff)
qed

section \<open>What the page does with it\<close>

lemma made_up_row: "made_up v \<Longrightarrow> \<exists>r. top_row v = Inr r"
  by (auto simp: made_up_def top_row_def js_simps)

lemma made_up_list:
  assumes "list_all made_up xs"
  shows "\<exists>vs. renderTopList t (JArr xs) = Inr vs"
proof -
  have "\<exists>ys. map_result top_row xs = Inr ys"
    using assms made_up_row map_result_Inr [of top_row xs] by (auto simp: list_all_iff)
  then show ?thesis by (auto simp: renderTopList_def)
qed

lemma made_up_json: "list_all made_up xs \<Longrightarrow> json_list_ok xs"
  by (induction xs) (auto simp: made_up_def safe_key_def immutable_names_def)

lemma generated_body_ok:
  assumes "list_all made_up hits" "list_all made_up misses"
  shows "json_props_ok 63
    [(''namespace'', JStr n), (''topHits'', JArr hits), (''topMisses'', JArr misses)]"
  using assms made_up_json by (simp add: safe_key_def immutable_names_def)

text \<open>
  C31: The made-up statistics are what the page expects. The two lists have five to ten entries each
  and every value lies between 1000 and 2000, whatever the random numbers and texts are; the loop
  leaves no place of its array empty. The statistics slice, when it holds nothing yet, takes the
  answer as it is, and the statistics view renders it.
\<close>

theorem made_up_statistics_are_shown:
  assumes "random_numbers random" "st_items ss = JUndef"
  shows "\<exists>hits misses s'.
     stats_body random generate_string s n =
       ([(''namespace'', JStr n), (''topHits'', JArr hits), (''topMisses'', JArr misses)], s') \<and>
     length hits \<in> {5..10} \<and> length misses \<in> {5..10} \<and> list_all made_up (hits @ misses) \<and>
     stats (Some ss) (STATS_FETCH_SUCCESS False (JObj (fst (stats_body random generate_string s n)))) =
       Inr (Some (ss\<lparr> st_inRequest := Some False, st_items := JObj (fst (stats_body random generate_string s n)) \<rparr>)) \<and>
     (\<exists>v. Stats_render ns (ss\<lparr> st_inRequest := Some False,
                               st_items := JObj (fst (stats_body random generate_string s n)) \<rparr>)
            stats_view_initial = Inr v)"
proof -
  obtain hits s1 misses s2 where
    h: "generate random generate_string s = (hits, s1)" "length hits \<in> {5..10}" "list_all made_up hits" and
    m: "generate random generate_string s1 = (misses, s2)" "length misses \<in> {5..10}" "list_all made_up misses"
    using generate_spec [OF assms(1), of generate_string] by (metis atLeastAtMost_iff)
  let ?kvs = "[(''namespace'', JStr n), (''topHits'', JArr hits), (''topMisses'', JArr misses)]"
  have body: "stats_body random generate_string s n = (?kvs, s2)" using h m by (simp add: stats_body_def)
  have "json_props_ok 63 ?kvs" by (rule generated_body_ok [OF h(3) m(3)])
  moreover from this have "object_assign (object_assign [] (JObj [])) (JObj ?kvs) = ?kvs"
    using object_assign_new [of "[]" ?kvs] json_props_ok_keys [of 63 ?kvs]
    by (simp add: object_assign_def)
  ultimately have "stats (Some ss) (STATS_FETCH_SUCCESS False (JObj ?kvs)) =
      Inr (Some (ss\<lparr> st_inRequest := Some False, st_items := JObj ?kvs \<rparr>))"
    using merged_items(1) [of ?kvs JUndef] assms(2) by (simp add: Let_def del: json_props_ok.simps)
  moreover obtain a b where "renderTopList ''top dynamic bucket hits'' (JArr hits) = Inr a"
    "renderTopList ''top dynamic bucket misses'' (JArr misses) = Inr b"
    using made_up_list [OF h(3)] made_up_list [OF m(3)] by blast
  then have "\<exists>v. Stats_render ns (ss\<lparr> st_inRequest := Some False, st_items := JObj ?kvs \<rparr>)
      stats_view_initial = Inr v"
    by (auto simp: Stats_render_def renderBucketSearch_def renderBucketStats_def
        stats_view_initial_def im_prop_def immutable_names_def inherited_def object_prototype_def js_simps)
  ultimately show ?thesis using body h m by simp
qed

theorem made_up_statistics_are_shown_witness:
  "\<exists>hits misses s'. stats_body (\<lambda>i. 1 / 2) (\<lambda>i. ''b'') 0 ''ns'' =
       ([(''namespace'', JStr ''ns''), (''topHits'', JArr hits), (''topMisses'', JArr misses)], s') \<and>
     length hits \<in> {5..10} \<and> list_all made_up (hits @ misses)"
  using made_up_statistics_are_shown [of "\<lambda>i. 1 / 2" INITIAL_STATS "\<lambda>i. ''b''" 0 "''ns''" JUndef]
  by (auto simp: random_numbers_def INITIAL_STATS_def simp del: atLeastAtMost_iff)

end
