(* ===== verification/JSON_Parse.thy ===== *)
theory JSON_Parse
  imports JSON_Text
begin

text \<open>
  \<open>JSON.parse\<close>, which \<open>response.json()\<close> applies to the body of an answer
  (\<^verbatim>\<open>src/admin/public/src/actions/configs.jsx\<close>, \<^verbatim>\<open>src/admin/public/examples/capabilities.js\<close>), and
  that it reads back what \<open>JSON.stringify\<close> writes, with and without indentation.

  A parser maps a text to an exception or to a value and the rest of the text. The fuel of the three
  parsers that call each other bounds their depth; \<open>json_parse\<close> gives them more than any text of
  that length uses (\<open>json_value_fuel\<close>). Numbers that are no safe integers and characters beyond the
  eight bits of \<open>char\<close> are outside the values of the model.
\<close>

section \<open>The parser\<close>

definition syntax_error :: js_error where
  "syntax_error = PlainError ''SyntaxError''"

definition json_space :: "char \<Rightarrow> bool" where
  "json_space c \<longleftrightarrow> (of_char c :: nat) \<in> {9, 10, 13, 32}"

definition skip_space :: "string \<Rightarrow> string" where
  "skip_space s = dropWhile json_space s"

definition hex_value :: "char \<Rightarrow> nat option" where
  "hex_value c =
     (let n = of_char c in
      if 48 \<le> n \<and> n \<le> 57 then Some (n - 48)
      else if 97 \<le> n \<and> n \<le> 102 then Some (n - 87)
      else if 65 \<le> n \<and> n \<le> 70 then Some (n - 55)
      else None)"

definition unicode_escape :: "char \<Rightarrow> char \<Rightarrow> char \<Rightarrow> char \<Rightarrow> char result" where
  "unicode_escape a b c d =
     (case (hex_value a, hex_value b, hex_value c, hex_value d) of
        (Some w, Some x, Some y, Some z) \<Rightarrow>
          (let n = ((w * 16 + x) * 16 + y) * 16 + z in
           if n < 256 then Inr (char_of n) else Inl (OutsideModel ''a character of more than eight bits''))
      | _ \<Rightarrow> Inl syntax_error)"

text \<open>The escapes of one letter.\<close>

definition letter_escape :: "char \<Rightarrow> char result" where
  "letter_escape c =
     (let n = of_char c :: nat in
      if n = 34 \<or> n = 92 \<or> n = 47 then Inr c
      else if c = CHR ''b'' then Inr (CHR 0x08)
      else if c = CHR ''f'' then Inr (CHR 0x0C)
      else if c = CHR ''n'' then Inr (CHR 0x0A)
      else if c = CHR ''r'' then Inr (CHR 0x0D)
      else if c = CHR ''t'' then Inr (CHR 0x09)
      else Inl syntax_error)"

text \<open>The rest of a string after its opening quote.\<close>

fun json_chars :: "string \<Rightarrow> (string \<times> string) result" where
  "json_chars [] = Inl syntax_error"
| "json_chars (c # cs) =
     (if c = CHR 0x22 then Inr ([], cs)
      else if c = CHR 0x5C
      then (case cs of
              [] \<Rightarrow> Inl syntax_error
            | e # r \<Rightarrow>
                if e = CHR ''u''
                then (case r of
                        h1 # h2 # h3 # h4 # r' \<Rightarrow>
                          and_then (unicode_escape h1 h2 h3 h4) (\<lambda>x.
                          and_then (json_chars r') (\<lambda>(s, rest). Inr (x # s, rest)))
                      | _ \<Rightarrow> Inl syntax_error)
                else and_then (letter_escape e) (\<lambda>x.
                     and_then (json_chars r) (\<lambda>(s, rest). Inr (x # s, rest))))
      else if (of_char c :: nat) < 32 then Inl syntax_error
      else and_then (json_chars cs) (\<lambda>(s, rest). Inr (c # s, rest)))"

definition is_digit :: "char \<Rightarrow> bool" where
  "is_digit c \<longleftrightarrow> digit_of c \<noteq> None"

definition safe_number :: "int \<Rightarrow> bool" where
  "safe_number n \<longleftrightarrow> \<bar>n\<bar> \<le> 9007199254740991"

definition json_number :: "string \<Rightarrow> (jsval \<times> string) result" where
  "json_number s =
     (let (neg, s1) = (case s of c # cs \<Rightarrow> if c = CHR ''-'' then (True, cs) else (False, s) | [] \<Rightarrow> (False, s));
          ds = takeWhile is_digit s1;
          rest = dropWhile is_digit s1
      in if ds = [] \<or> (hd ds = CHR ''0'' \<and> tl ds \<noteq> []) then Inl syntax_error
         else if rest \<noteq> [] \<and> hd rest \<in> set ''.eE'' then Inl (OutsideModel ''a number with a fraction or an exponent'')
         else (case read_digits 0 ds of
                 None \<Rightarrow> Inl syntax_error
               | Some n \<Rightarrow>
                   let i = (if neg then - int n else int n) in
                   if safe_number i then Inr (JNum i, rest)
                   else Inl (OutsideModel ''a number beyond the safe integers'')))"

text \<open>The three names, and a value if the text starts with one of them.\<close>

fun json_literal :: "(string \<times> jsval) list \<Rightarrow> string \<Rightarrow> (jsval \<times> string) result" where
  "json_literal [] s = Inl syntax_error"
| "json_literal ((t, v) # ls) s =
     (if take (length t) s = t then Inr (v, drop (length t) s) else json_literal ls s)"

definition json_literals :: "(string \<times> jsval) list" where
  "json_literals = [(''null'', JNull), (''true'', JBool True), (''false'', JBool False)]"

text \<open>A punctuation mark after white space.\<close>

definition next_char :: "string \<Rightarrow> (char \<times> string) result" where
  "next_char s = (case skip_space s of [] \<Rightarrow> Inl syntax_error | c # cs \<Rightarrow> Inr (c, cs))"

definition out_of_fuel :: js_error where
  "out_of_fuel = OutsideModel ''out of fuel''"

text \<open>Members are collected in order; a repeated name replaces the value in place.\<close>

fun json_value :: "nat \<Rightarrow> string \<Rightarrow> (jsval \<times> string) result"
  and json_list :: "nat \<Rightarrow> string \<Rightarrow> (jsval list \<times> string) result"
  and json_object :: "nat \<Rightarrow> props \<Rightarrow> string \<Rightarrow> (props \<times> string) result"
where
  "json_value 0 s = Inl out_of_fuel"
| "json_value (Suc n) s =
     and_then (next_char s) (\<lambda>(c, cs).
       if c = CHR ''{'' then
         (case next_char cs of
            Inr (c', r) \<Rightarrow>
              if c' = CHR ''}'' then Inr (JObj [], r)
              else and_then (json_object n [] cs) (\<lambda>(kvs, r). Inr (JObj kvs, r))
          | Inl e \<Rightarrow> Inl e)
       else if c = CHR ''['' then
         (case next_char cs of
            Inr (c', r) \<Rightarrow>
              if c' = CHR '']'' then Inr (JArr [], r)
              else and_then (json_list n cs) (\<lambda>(xs, r). Inr (JArr xs, r))
          | Inl e \<Rightarrow> Inl e)
       else if c = CHR 0x22 then and_then (json_chars cs) (\<lambda>(t, r). Inr (JStr t, r))
       else if c = CHR ''-'' \<or> is_digit c then json_number (c # cs)
       else json_literal json_literals (c # cs))"
| "json_list 0 s = Inl out_of_fuel"
| "json_list (Suc n) s =
     and_then (json_value n s) (\<lambda>(v, r).
     and_then (next_char r) (\<lambda>(c, r').
       if c = CHR '','' then and_then (json_list n r') (\<lambda>(vs, r''). Inr (v # vs, r''))
       else if c = CHR '']'' then Inr ([v], r')
       else Inl syntax_error))"
| "json_object 0 acc s = Inl out_of_fuel"
| "json_object (Suc n) acc s =
     and_then (next_char s) (\<lambda>(q, s1).
       if q \<noteq> CHR 0x22 then Inl syntax_error
       else and_then (json_chars s1) (\<lambda>(k, s2).
            and_then (next_char s2) (\<lambda>(colon, s3).
              if colon \<noteq> CHR '':'' then Inl syntax_error
              else and_then (json_value n s3) (\<lambda>(v, s4).
                   and_then (next_char s4) (\<lambda>(c, s5).
                     if c = CHR '','' then json_object n (AList.update k v acc) s5
                     else if c = CHR ''}'' then Inr (AList.update k v acc, s5)
                     else Inl syntax_error)))))"

definition json_parse :: "string \<Rightarrow> jsval result" where
  "json_parse s =
     and_then (json_value (2 * length s + 2) s) (\<lambda>(v, r).
       if skip_space r = [] then Inr v else Inl syntax_error)"

section \<open>The fuel is enough\<close>

lemma next_char_shorter: "next_char s = Inr (c, r) \<Longrightarrow> length r < length s"
proof -
  assume "next_char s = Inr (c, r)"
  then have "dropWhile json_space s = c # r"
    by (simp add: next_char_def skip_space_def split: list.splits)
  then show ?thesis using length_dropWhile_le [of json_space s] by simp
qed

lemma json_chars_shorter: "json_chars s = Inr (t, r) \<Longrightarrow> length r < length s"
  by (induction s arbitrary: t rule: json_chars.induct)
     (fastforce simp: js_simps split: if_splits list.splits)+

lemma json_number_shorter: "json_number s = Inr (v, r) \<Longrightarrow> length r \<le> length s"
  using length_dropWhile_le [of is_digit s] length_dropWhile_le [of is_digit "tl s"]
  by (auto simp: json_number_def Let_def split: if_splits list.splits option.splits)

lemma json_literal_shorter: "json_literal ls s = Inr (v, r) \<Longrightarrow> length r \<le> length s"
  by (induction ls s rule: json_literal.induct) (auto split: if_splits)

lemma json_value_shorter:
  "(\<forall>s v r. json_value n s = Inr (v, r) \<longrightarrow> length r \<le> length s) \<and>
   (\<forall>s vs r. json_list n s = Inr (vs, r) \<longrightarrow> length r \<le> length s) \<and>
   (\<forall>acc s kvs r. json_object n acc s = Inr (kvs, r) \<longrightarrow> length r \<le> length s)"
proof (induction n)
  case (Suc n)
  then have v: "\<And>s v r. json_value n s = Inr (v, r) \<Longrightarrow> length r \<le> length s"
    and l: "\<And>s vs r. json_list n s = Inr (vs, r) \<Longrightarrow> length r \<le> length s"
    and o: "\<And>acc s kvs r. json_object n acc s = Inr (kvs, r) \<Longrightarrow> length r \<le> length s"
    by blast+
  have "length r \<le> length s" if p: "json_value (Suc n) s = Inr (w, r)" for s w r
  proof -
    obtain c cs where c: "next_char s = Inr (c, cs)" using p by (auto simp: js_simps)
    have "length r \<le> Suc (length cs)"
      using p c
      by (auto simp: js_simps simp del: json_chars.simps json_literal.simps split: if_splits sum.splits
          dest!: l o next_char_shorter json_chars_shorter json_number_shorter json_literal_shorter)
    then show ?thesis using next_char_shorter [OF c] by simp
  qed
  moreover have "length r \<le> length s" if "json_list (Suc n) s = Inr (ws, r)" for s ws r
    using that by (auto simp: js_simps split: if_splits dest!: v l next_char_shorter)
  moreover have "length r \<le> length s" if "json_object (Suc n) acc s = Inr (ws, r)" for acc s ws r
    using that
    by (auto simp: js_simps split: if_splits dest!: v o next_char_shorter json_chars_shorter)
  ultimately show ?case by blast
qed (simp add: out_of_fuel_def)

lemma errors_distinct [simp]: "syntax_error \<noteq> out_of_fuel" "out_of_fuel \<noteq> syntax_error"
  by (simp_all add: syntax_error_def out_of_fuel_def)

lemma no_fuel_chars: "json_chars s \<noteq> Inl out_of_fuel"
  by (induction s rule: json_chars.induct)
     (auto simp: js_simps unicode_escape_def letter_escape_def Let_def out_of_fuel_def syntax_error_def
       split: if_splits list.splits option.splits)

lemma no_fuel_flat:
  "next_char s \<noteq> Inl out_of_fuel" "json_number s \<noteq> Inl out_of_fuel" "json_literal ls s \<noteq> Inl out_of_fuel"
proof -
  show "next_char s \<noteq> Inl out_of_fuel" by (simp add: next_char_def split: list.split)
  show "json_number s \<noteq> Inl out_of_fuel"
    by (auto simp: json_number_def Let_def out_of_fuel_def syntax_error_def split: if_splits list.splits option.splits)
  show "json_literal ls s \<noteq> Inl out_of_fuel" by (induction ls s rule: json_literal.induct) auto
qed

lemma json_value_fuel:
  "(\<forall>s. 2 * length s < n \<longrightarrow> json_value n s \<noteq> Inl out_of_fuel) \<and>
   (\<forall>s. 2 * length s + 1 < n \<longrightarrow> json_list n s \<noteq> Inl out_of_fuel) \<and>
   (\<forall>acc s. 2 * length s + 1 < n \<longrightarrow> json_object n acc s \<noteq> Inl out_of_fuel)"
proof (induction n)
  case (Suc n)
  then have v: "\<And>s. 2 * length s < n \<Longrightarrow> json_value n s \<noteq> Inl out_of_fuel"
    and l: "\<And>s. 2 * length s + 1 < n \<Longrightarrow> json_list n s \<noteq> Inl out_of_fuel"
    and o: "\<And>acc s. 2 * length s + 1 < n \<Longrightarrow> json_object n acc s \<noteq> Inl out_of_fuel"
    by blast+
  have "json_value (Suc n) s \<noteq> Inl out_of_fuel" if "2 * length s < Suc n" for s
  proof
    assume p: "json_value (Suc n) s = Inl out_of_fuel"
    then obtain c cs where c: "next_char s = Inr (c, cs)" by (auto simp: js_simps no_fuel_flat)
    then have "2 * length cs + 1 < n" using that next_char_shorter [OF c] by simp
    then show False
      using p c l [of cs] o [of cs "[]"]
      by (auto simp: js_simps no_fuel_flat no_fuel_chars
          simp del: json_chars.simps json_literal.simps split: if_splits sum.splits)
  qed
  moreover have "json_list (Suc n) s \<noteq> Inl out_of_fuel" if len: "2 * length s + 1 < Suc n" for s
  proof
    assume p: "json_list (Suc n) s = Inl out_of_fuel"
    then obtain w r where w: "json_value n s = Inr (w, r)"
      using v [of s] len by (cases "json_value n s") auto
    then have "length r \<le> length s" using json_value_shorter by blast
    then have "json_list n r' \<noteq> Inl out_of_fuel" if "next_char r = Inr (c, r')" for c r'
      using next_char_shorter [OF that] len by (intro l) simp
    then show False using p w by (auto simp: js_simps no_fuel_flat split: if_splits)
  qed
  moreover have "json_object (Suc n) acc s \<noteq> Inl out_of_fuel" if len: "2 * length s + 1 < Suc n" for acc s
  proof
    assume p: "json_object (Suc n) acc s = Inl out_of_fuel"
    then obtain k s1 s2 s3 colon where a: "next_char s = Inr (CHR 0x22, s1)" "json_chars s1 = Inr (k, s2)"
      "next_char s2 = Inr (colon, s3)" "colon = CHR '':''"
      by (auto simp: js_simps no_fuel_flat no_fuel_chars simp del: json_chars.simps split: if_splits)
    then have s3: "length s3 < length s"
      using next_char_shorter [OF a(1)] json_chars_shorter [OF a(2)] next_char_shorter [OF a(3)] by simp
    then obtain w r where w: "json_value n s3 = Inr (w, r)"
      using v [of s3] len p a by (cases "json_value n s3") (auto simp del: json_chars.simps)
    then have "length r \<le> length s3" using json_value_shorter by blast
    then have "json_object n acc' r' \<noteq> Inl out_of_fuel" if "next_char r = Inr (c, r')" for c r' acc'
      using next_char_shorter [OF that] s3 len by (intro o) simp
    then show False
      using p w a by (auto simp: js_simps no_fuel_flat simp del: json_chars.simps split: if_splits)
  qed
  ultimately show ?case by blast
qed simp

declare json_value.simps [simp del] json_list.simps [simp del] json_object.simps [simp del]
declare json_chars.simps [simp del]

lemma json_parse_total: "json_parse s \<noteq> Inl out_of_fuel"
proof -
  have "json_value (2 * length s + 2) s \<noteq> Inl out_of_fuel" using json_value_fuel by simp
  then show ?thesis by (auto simp: json_parse_def js_simps split: if_splits)
qed

section \<open>Reading back what is written\<close>

lemma hex_digit_value: "d < 16 \<Longrightarrow> hex_value (hex_digit d) = Some d"
proof -
  assume "d < 16"
  then have "d \<in> {0, 1, 2, 3, 4, 5, 6, 7, 8, 9, 10, 11, 12, 13, 14, 15}" by simp presburger
  then show ?thesis by (auto simp: hex_digit_def hex_value_def)
qed

lemma char_of_nat_of_char: "(of_char c :: nat) = n \<Longrightarrow> c = char_of n"
  by (metis char_of_char)

lemma json_chars_letter:
  assumes "c \<in> {CHR 0x08, CHR 0x09, CHR 0x0A, CHR 0x0C, CHR 0x0D, CHR 0x22, CHR 0x5C}"
  shows "json_chars (json_escape c @ x) = and_then (json_chars x) (\<lambda>(s, r). Inr (c # s, r))"
  using assms
  by (elim insertE emptyE) (simp_all add: json_escape_def json_chars.simps letter_escape_def)

lemma json_chars_unicode:
  assumes "(of_char c :: nat) = n" "n < 32" "n \<notin> {8, 9, 10, 12, 13}"
  shows "json_chars (json_escape c @ x) = and_then (json_chars x) (\<lambda>(s, r). Inr (c # s, r))"
proof -
  have "n div 16 < 16" "n mod 16 < 16" "n div 16 * 16 + n mod 16 = n" "n < 256" using assms(2) by auto
  then have "unicode_escape (CHR ''0'') (CHR ''0'') (hex_digit (n div 16)) (hex_digit (n mod 16)) =
      Inr (char_of n)"
    by (simp add: unicode_escape_def hex_digit_value Let_def) (simp add: hex_value_def)
  moreover have "json_escape c = [CHR 0x5C] @ ''u00'' @ [hex_digit (n div 16), hex_digit (n mod 16)]"
    using assms by (simp add: json_escape_def)
  ultimately show ?thesis
    using assms(1) [THEN char_of_nat_of_char] by (simp add: json_chars.simps)
qed

lemma json_chars_plain:
  assumes "32 \<le> (of_char c :: nat)" "c \<noteq> CHR 0x22" "c \<noteq> CHR 0x5C"
  shows "json_chars (json_escape c @ x) = and_then (json_chars x) (\<lambda>(s, r). Inr (c # s, r))"
proof -
  have "(of_char c :: nat) \<noteq> 34" "(of_char c :: nat) \<noteq> 92"
    using assms(2,3) char_of_nat_of_char [of c] by (auto simp: char_of_def bit_0)
  then have "json_escape c = [c]" using assms(1) by (simp add: json_escape_def)
  then show ?thesis using assms by (simp add: json_chars.simps)
qed

lemma json_chars_escape:
  "json_chars (json_escape c @ x) = and_then (json_chars x) (\<lambda>(s, r). Inr (c # s, r))"
proof (cases "c \<in> {CHR 0x08, CHR 0x09, CHR 0x0A, CHR 0x0C, CHR 0x0D, CHR 0x22, CHR 0x5C}")
  case True
  then show ?thesis by (rule json_chars_letter)
next
  case False
  have "(of_char c :: nat) \<notin> {8, 9, 10, 12, 13}"
    using False char_of_nat_of_char [of c] by (auto simp: char_of_def bit_0)
  then show ?thesis
    using False json_chars_unicode [of c, OF refl] json_chars_plain [of c]
    by (cases "(of_char c :: nat) < 32") auto
qed

lemma json_chars_text: "json_chars (concat (map json_escape s) @ CHR 0x22 # r) = Inr (s, r)"
proof (induction s)
  case Nil
  then show ?case by (simp add: json_chars.simps)
next
  case (Cons c s)
  then show ?case using json_chars_escape [of c "concat (map json_escape s) @ CHR 0x22 # r"] by simp
qed

lemma is_digit_digit_char: "d < 10 \<Longrightarrow> is_digit (digit_char d)"
  by (simp add: is_digit_def digit_of_digit_char)

lemma show_nat_is_digit: "list_all is_digit (show_nat n)"
proof (induction n rule: show_nat.induct)
  case (1 n)
  show ?case
  proof (cases "n < 10")
    case True
    then show ?thesis by (simp add: show_nat_less is_digit_digit_char)
  next
    case False
    then show ?thesis using 1 by (simp add: show_nat_step is_digit_digit_char)
  qed
qed

text \<open>What may follow a number.\<close>

definition ends_value :: "string \<Rightarrow> bool" where
  "ends_value r \<longleftrightarrow> (case r of [] \<Rightarrow> True | c # _ \<Rightarrow> \<not> is_digit c \<and> c \<notin> set ''.eE'')"

lemma span_digits:
  assumes "list_all is_digit ds" "ends_value r"
  shows "takeWhile is_digit (ds @ r) = ds" "dropWhile is_digit (ds @ r) = r"
proof -
  have "takeWhile is_digit r = []" "dropWhile is_digit r = r"
    using assms(2) by (auto simp: ends_value_def split: list.splits)
  then show "takeWhile is_digit (ds @ r) = ds" "dropWhile is_digit (ds @ r) = r"
    using assms(1) by (auto simp: list_all_iff takeWhile_append dropWhile_append)
qed

lemma show_nat_canonical:
  "show_nat n \<noteq> []" "hd (show_nat n) = CHR ''0'' \<Longrightarrow> tl (show_nat n) = []"
proof -
  obtain d cs where d: "show_nat n = digit_char d # cs" "d < 10" "0 < n \<longrightarrow> 0 < d"
    using show_nat_first by blast
  then show "show_nat n \<noteq> []" by simp
  assume "hd (show_nat n) = CHR ''0''"
  then have "digit_char d = digit_char 0" using d(1) by (simp add: digit_char_def)
  then have "d = 0" using digit_of_digit_char [OF d(2)] digit_of_digit_char [of 0] by simp
  then have "n = 0" using d(3) by simp
  then show "tl (show_nat n) = []" by (simp add: show_nat_less)
qed

lemma json_number_text:
  assumes "safe_number i" "ends_value r"
  shows "json_number (show_int i @ r) = Inr (JNum i, r)"
proof -
  define m where "m = nat \<bar>i\<bar>"
  have minus: "show_nat m \<noteq> CHR ''-'' # cs" for cs
    using show_nat_is_digit [of m] by (auto simp: is_digit_def digit_of_def)
  obtain c cs where ds: "show_nat m = c # cs" using show_nat_canonical(1) by (cases "show_nat m") auto
  then have c: "c \<noteq> CHR ''-''" using minus by auto
  note span = span_digits [OF show_nat_is_digit assms(2), of m]
  have rest: "\<not> (r \<noteq> [] \<and> hd r \<in> set ''.eE'')" using assms(2) by (auto simp: ends_value_def split: list.splits)
  have canon: "\<not> (hd (show_nat m) = CHR ''0'' \<and> tl (show_nat m) \<noteq> [])"
    using show_nat_canonical(2) by blast
  have shown: "show_int i @ r = (if i < 0 then CHR ''-'' # show_nat m @ r else show_nat m @ r)"
    by (simp add: show_int_def m_def)
  have neg: "(case show_int i @ r of c # cs \<Rightarrow> if c = CHR ''-'' then (True, cs) else (False, show_int i @ r)
      | [] \<Rightarrow> (False, show_int i @ r)) = (i < 0, show_nat m @ r)"
    using ds c by (simp add: shown)
  have "(if i < 0 then - int m else int m) = i" by (simp add: m_def)
  then show ?thesis
    unfolding json_number_def neg Let_def
    using canon rest assms(1)
    by (simp only: prod.case span show_nat_canonical(1) read_digits_show_nat option.case if_False if_True
        simp_thms)
qed

lemma next_char_space [simp]: "list_all json_space w \<Longrightarrow> next_char (w @ s) = next_char s"
  by (simp add: next_char_def skip_space_def list_all_iff dropWhile_append)

lemma next_char_Cons [simp]: "\<not> json_space c \<Longrightarrow> next_char (c # s) = Inr (c, s)"
  by (simp add: next_char_def skip_space_def)

lemma json_space_marks [simp]:
  "\<not> json_space (CHR 0x22)" "\<not> json_space (CHR ''{'')" "\<not> json_space (CHR ''}'')"
  "\<not> json_space (CHR ''['')" "\<not> json_space (CHR '']'')" "\<not> json_space (CHR '','')"
  "\<not> json_space (CHR '':'')" "\<not> json_space (CHR ''-'')" "\<not> json_space (CHR ''n'')"
  "\<not> json_space (CHR ''t'')" "\<not> json_space (CHR ''f'')" "json_space (CHR '' '')" "json_space (CHR 0x0A)"
  by (simp_all add: json_space_def)

lemma json_value_space: "list_all json_space w \<Longrightarrow> json_value n (w @ s) = json_value n s"
  by (cases n) (simp_all add: json_value.simps)

lemma ends_value_marks [simp]:
  "ends_value []" "ends_value (CHR '','' # r)" "ends_value (CHR '']'' # r)" "ends_value (CHR ''}'' # r)"
  by (simp_all add: ends_value_def is_digit_def digit_of_def)

lemma ends_value_space:
  assumes "list_all json_space w" "ends_value r"
  shows "ends_value (w @ r)"
proof (cases w)
  case (Cons c cs)
  then have "(of_char c :: nat) \<in> {9, 10, 13, 32}" using assms(1) by (simp add: json_space_def)
  then have "\<not> is_digit c" "c \<noteq> CHR ''.''" "c \<noteq> CHR ''e''" "c \<noteq> CHR ''E''"
    by (auto simp: is_digit_def digit_of_def)
  then show ?thesis using Cons by (simp add: ends_value_def)
qed (use assms in simp)

text \<open>A text that is read as a value wherever it stands, and its first character.\<close>

definition reads :: "string \<Rightarrow> jsval \<Rightarrow> bool" where
  "reads t v \<longleftrightarrow> (\<forall>n r. 2 * length t < n \<longrightarrow> ends_value r \<longrightarrow> json_value n (t @ r) = Inr (v, r))"

lemma readsD: "reads t v \<Longrightarrow> 2 * length t < n \<Longrightarrow> ends_value r \<Longrightarrow> json_value n (t @ r) = Inr (v, r)"
  by (simp add: reads_def)

lemma json_value_first: "json_value n s = Inr x \<Longrightarrow> \<exists>c cs. next_char s = Inr (c, cs) \<and> c \<noteq> CHR '']''"
proof -
  assume p: "json_value n s = Inr x"
  then obtain m where n: "n = Suc m" by (cases n) (auto simp: json_value.simps)
  then obtain c cs where c: "next_char s = Inr (c, cs)" using p by (auto simp: json_value.simps js_simps)
  have "c \<noteq> CHR '']''"
  proof
    assume "c = CHR '']''"
    then show False
      using p c n
      by (simp add: json_value.simps json_literals_def is_digit_def digit_of_def)
  qed
  then show ?thesis using c by blast
qed

lemma reads_literal:
  "reads ''null'' JNull" "reads ''true'' (JBool True)" "reads ''false'' (JBool False)"
proof -
  have "\<not> is_digit (CHR ''n'')" "\<not> is_digit (CHR ''t'')" "\<not> is_digit (CHR ''f'')"
    by (simp_all add: is_digit_def digit_of_def)
  then have "json_value (Suc m) (''null'' @ r) = Inr (JNull, r)"
    "json_value (Suc m) (''true'' @ r) = Inr (JBool True, r)"
    "json_value (Suc m) (''false'' @ r) = Inr (JBool False, r)" for m r
    by (simp_all add: json_value.simps json_literals_def)
  then show "reads ''null'' JNull" "reads ''true'' (JBool True)" "reads ''false'' (JBool False)"
    unfolding reads_def by (metis gr0_implies_Suc less_nat_zero_code not_gr_zero)+
qed

lemma reads_number:
  assumes "safe_number i"
  shows "reads (show_int i) (JNum i)"
  unfolding reads_def
proof (intro allI impI)
  fix n r assume n: "2 * length (show_int i) < n" and r: "ends_value r"
  obtain m where n: "n = Suc m" using n by (cases n) auto
  obtain c cs where c: "show_int i = c # cs" "c = CHR ''-'' \<or> is_digit c"
  proof (cases "i < 0")
    case True
    then show ?thesis using that by (simp add: show_int_def)
  next
    case False
    then show ?thesis
      using that show_nat_is_digit [of "nat i"] show_nat_canonical(1) [of "nat i"]
      by (cases "show_nat (nat i)") (auto simp: show_int_def)
  qed
  have "\<not> json_space c" using c(2) by (auto simp: is_digit_def digit_of_def json_space_def)
  moreover have "c \<notin> {CHR ''{'', CHR ''['', CHR 0x22}" using c(2) by (auto simp: is_digit_def digit_of_def)
  ultimately show "json_value n (show_int i @ r) = Inr (JNum i, r)"
    using json_number_text [OF assms r] c n by (simp add: json_value.simps)
qed

lemma reads_string: "reads (json_quote s) (JStr s)"
  unfolding reads_def
proof (intro allI impI)
  fix n r assume "2 * length (json_quote s) < n"
  then obtain m where "n = Suc m" by (cases n) auto
  then show "json_value n (json_quote s @ r) = Inr (JStr s, r)"
    using json_chars_text [of s r] by (simp add: json_value.simps json_quote_def)
qed

lemma json_list_space: "list_all json_space w \<Longrightarrow> json_list n (w @ s) = json_list n s"
  by (cases n) (simp_all add: json_list.simps json_value_space)

lemma json_object_space: "list_all json_space w \<Longrightarrow> json_object n acc (w @ s) = json_object n acc s"
  by (cases n) (simp_all add: json_object.simps)

lemma json_list_text:
  assumes "list_all json_space w" "list_all json_space w'"
  shows "list_all2 reads ts vs \<Longrightarrow> ts \<noteq> [] \<Longrightarrow> 2 * length (join (CHR '','' # w) ts) + 1 < n \<Longrightarrow>
    json_list n (join (CHR '','' # w) ts @ w' @ CHR '']'' # r) = Inr (vs, r)"
proof (induction "CHR '','' # w" ts arbitrary: vs n rule: join.induct)
  case (2 t)
  then obtain v m where v: "vs = [v]" "reads t v" "n = Suc m"
    by (cases n) (auto simp: list_all2_Cons1)
  then have "json_value m (t @ w' @ CHR '']'' # r) = Inr (v, w' @ CHR '']'' # r)"
    using 2 by (intro readsD ends_value_space assms) auto
  then show ?case using v assms by (simp add: json_list.simps)
next
  case (3 t t' ts)
  then obtain v vs' m where v: "vs = v # vs'" "reads t v" "list_all2 reads (t' # ts) vs'" "n = Suc m"
    by (cases n) (auto simp: list_all2_Cons1)
  let ?rest = "join (CHR '','' # w) (t' # ts) @ w' @ CHR '']'' # r"
  have "json_value m (t @ CHR '','' # w @ ?rest) = Inr (v, CHR '','' # w @ ?rest)"
    using 3 v by (intro readsD) auto
  moreover have "json_list m (w @ ?rest) = Inr (vs', r)"
    using 3(1) [OF v(3)] 3(4) v(4) assms by (simp add: json_list_space)
  ultimately show ?case using v by (simp add: json_list.simps)
qed simp

lemma update_new: "k \<notin> fst ` set acc \<Longrightarrow> AList.update k v acc = acc @ [(k, v)]"
  by (induction acc) auto

definition reads_member :: "string \<times> string \<Rightarrow> string \<times> jsval \<Rightarrow> bool" where
  "reads_member m p \<longleftrightarrow> fst m = fst p \<and> reads (snd m) (snd p)"

lemma json_object_member:
  assumes "reads (snd m) v" "ends_value x" "2 * length (snd m) < n"
  shows "json_object (Suc n) acc (json_member gap m @ x) =
    and_then (next_char x) (\<lambda>(c, s).
      if c = CHR '','' then json_object n (AList.update (fst m) v acc) s
      else if c = CHR ''}'' then Inr (AList.update (fst m) v acc, s)
      else Inl syntax_error)"
proof -
  let ?colon = "if gap = [] then '':'' else '': ''"
  have m: "json_member gap m = json_quote (fst m) @ ?colon @ snd m"
    by (cases m) (simp add: json_member_def)
  have colon: "next_char (?colon @ s) = Inr (CHR '':'', (if gap = [] then s else CHR '' '' # s))" for s
    by simp
  have space: "json_value i (if gap = [] then s else CHR '' '' # s) = json_value i s" for i s
    using json_value_space [of "'' ''" i s] by simp
  have "json_chars (concat (map json_escape (fst m)) @ CHR 0x22 # ?colon @ snd m @ x) =
      Inr (fst m, ?colon @ snd m @ x)"
    by (rule json_chars_text)
  then show ?thesis
    using readsD [OF assms(1,3,2)]
    by (simp add: m json_object.simps json_quote_def colon space del: if_split)
qed

lemma json_object_text:
  assumes "list_all json_space w" "list_all json_space w'"
  shows "list_all2 reads_member ms kvs \<Longrightarrow> ms \<noteq> [] \<Longrightarrow> distinct (map fst (acc @ kvs)) \<Longrightarrow>
    2 * length (join (CHR '','' # w) (map (json_member gap) ms)) + 1 < n \<Longrightarrow>
    json_object n acc (join (CHR '','' # w) (map (json_member gap) ms) @ w' @ CHR ''}'' # r) =
      Inr (acc @ kvs, r)"
proof (induction ms arbitrary: kvs n acc)
  case (Cons m ms)
  note IH = Cons.IH and prems = Cons.prems
  obtain p kvs' where p: "kvs = p # kvs'" "reads_member m p" "list_all2 reads_member ms kvs'"
    using prems(1) by (auto simp: list_all2_Cons1)
  obtain n' where n': "n = Suc n'" using prems(4) by (cases n) auto
  obtain k v where kv: "p = (k, v)" "fst m = k" "reads (snd m) v"
    using p(2) by (cases p) (auto simp: reads_member_def)
  have new: "AList.update k v acc = acc @ [(k, v)]" using prems(3) p(1) kv(1) by (intro update_new) auto
  have len: "2 * length (snd m) < n'"
    using prems(4) n' by (cases m; cases ms) (auto simp: json_member_def)
  note member = json_object_member [OF kv(3) _ len, of _ acc gap, unfolded kv(2) new]
  show ?case
  proof (cases ms)
    case Nil
    then show ?thesis
      using member [of "w' @ CHR ''}'' # r"] n' p kv(1) assms by (simp add: ends_value_space)
  next
    case (Cons m' ms')
    then have "json_object n' (acc @ [(k, v)])
        (join (CHR '','' # w) (map (json_member gap) ms) @ w' @ CHR ''}'' # r) = Inr (acc @ kvs, r)"
      using IH [OF p(3), of "acc @ [(k, v)]" n'] prems(3,4) p(1) kv(1) n' by simp
    then show ?thesis
      using member [of "CHR '','' # w @ join (CHR '','' # w) (map (json_member gap) ms) @ w' @ CHR ''}'' # r"]
        n' Cons assms
      by (simp add: json_object_space)
  qed
qed simp

lemma reads_list:
  assumes "list_all2 reads ts vs" "list_all json_space gap" "list_all json_space ind"
  shows "reads (json_block gap ind ''['' '']'' ts) (JArr vs)"
  unfolding reads_def
proof (intro allI impI)
  fix n r assume n: "2 * length (json_block gap ind ''['' '']'' ts) < n" and "ends_value r"
  then obtain m where m: "n = Suc m" by (cases n) auto
  show "json_value n (json_block gap ind ''['' '']'' ts @ r) = Inr (JArr vs, r)"
  proof (cases "ts = []")
    case True
    then show ?thesis using assms(1) m by (simp add: json_block_def json_value.simps)
  next
    case False
    define w where "w = (if gap = [] then [] else [CHR 0x0A] @ ind @ gap)"
    define w' where "w' = (if gap = [] then [] else [CHR 0x0A] @ ind)"
    have w: "list_all json_space w" "list_all json_space w'" using assms(2,3) by (simp_all add: w_def w'_def)
    have t: "json_block gap ind ''['' '']'' ts = CHR ''['' # w @ join (CHR '','' # w) ts @ w' @ [CHR '']'']"
      using False by (simp add: json_block_def w_def w'_def)
    let ?s = "join (CHR '','' # w) ts @ w' @ CHR '']'' # r"
    have list: "json_list m ?s = Inr (vs, r)"
      using json_list_text [OF w assms(1) False, of m r] n m t by simp
    then obtain v r' where "json_value (m - 1) ?s = Inr (v, r')"
      by (cases m) (auto simp: json_list.simps js_simps)
    then obtain c cs where "next_char ?s = Inr (c, cs)" "c \<noteq> CHR '']''"
      using json_value_first by blast
    then show ?thesis using list w(1) m t by (simp add: json_value.simps json_list_space)
  qed
qed

lemma reads_object:
  assumes "list_all2 reads_member ms kvs" "distinct (map fst kvs)"
    and "list_all json_space gap" "list_all json_space ind"
  shows "reads (json_block gap ind ''{'' ''}'' (map (json_member gap) ms)) (JObj kvs)"
  unfolding reads_def
proof (intro allI impI)
  let ?b = "json_block gap ind ''{'' ''}'' (map (json_member gap) ms)"
  fix n r assume n: "2 * length ?b < n" and "ends_value r"
  then obtain m where m: "n = Suc m" by (cases n) auto
  show "json_value n (?b @ r) = Inr (JObj kvs, r)"
  proof (cases "ms = []")
    case True
    then show ?thesis using assms(1) m by (simp add: json_block_def json_value.simps)
  next
    case False
    define w where "w = (if gap = [] then [] else [CHR 0x0A] @ ind @ gap)"
    define w' where "w' = (if gap = [] then [] else [CHR 0x0A] @ ind)"
    have w: "list_all json_space w" "list_all json_space w'" using assms(3,4) by (simp_all add: w_def w'_def)
    have t: "?b = CHR ''{'' # w @ join (CHR '','' # w) (map (json_member gap) ms) @ w' @ [CHR ''}'']"
      using False by (simp add: json_block_def w_def w'_def)
    let ?s = "join (CHR '','' # w) (map (json_member gap) ms) @ w' @ CHR ''}'' # r"
    have obj: "json_object m [] ?s = Inr (kvs, r)"
      using json_object_text [OF w assms(1) False, of "[]" gap m r] n m t assms(2) by simp
    obtain c where "next_char ?s = Inr (CHR 0x22, c)"
      using False by (cases ms; cases "tl ms"; cases "hd ms") (auto simp: json_member_def json_quote_def)
    then show ?thesis using obj w(1) m t by (simp add: json_value.simps json_object_space)
  qed
qed

text \<open>
  What is left of a value in its text: members and elements that have no text are dropped or become
  \<open>null\<close>, and the members stand in the order in which they are enumerated.
\<close>

fun json_image :: "jsval \<Rightarrow> jsval option"
  and image_props :: "props \<Rightarrow> props"
  and image_elems :: "jsval list \<Rightarrow> jsval list"
where
  "json_image JUndef = None"
| "json_image (JFun f) = None"
| "json_image JNull = Some JNull"
| "json_image (JBool b) = Some (JBool b)"
| "json_image (JNum n) = Some (JNum n)"
| "json_image (JStr s) = Some (JStr s)"
| "json_image (JArr xs) = Some (JArr (image_elems xs))"
| "json_image (JObj kvs) = Some (JObj (in_key_order (image_props kvs)))"
| "image_props [] = []"
| "image_props ((k, v) # kvs) =
     (case json_image v of None \<Rightarrow> image_props kvs | Some w \<Rightarrow> (k, w) # image_props kvs)"
| "image_elems [] = []"
| "image_elems (x # xs) = (case json_image x of None \<Rightarrow> JNull | Some w \<Rightarrow> w) # image_elems xs"

text \<open>Objects name each member once and numbers are safe integers.\<close>

fun json_wf :: "jsval \<Rightarrow> bool"
  and json_props_wf :: "props \<Rightarrow> bool"
  and json_elems_wf :: "jsval list \<Rightarrow> bool"
where
  "json_wf (JNum n) = safe_number n"
| "json_wf (JArr xs) = json_elems_wf xs"
| "json_wf (JObj kvs) = json_props_wf kvs"
| "json_wf JUndef = True"
| "json_wf JNull = True"
| "json_wf (JBool b) = True"
| "json_wf (JStr s) = True"
| "json_wf (JFun f) = True"
| "json_props_wf [] = True"
| "json_props_wf ((k, v) # kvs) = (k \<notin> fst ` set kvs \<and> json_wf v \<and> json_props_wf kvs)"
| "json_elems_wf [] = True"
| "json_elems_wf (x # xs) = (json_wf x \<and> json_elems_wf xs)"

lemma in_key_order_eq: "in_key_order ps = map (\<lambda>k. (k, the (map_of ps k))) (object_keys ps)"
proof -
  have "List.map_filter (\<lambda>k. map_option (Pair k) (map_of ps k)) ks = map (\<lambda>k. (k, the (map_of ps k))) ks"
    if "set ks \<subseteq> fst ` set ps" for ks
    using that
    by (induction ks) (auto simp: map_filter_simps dest: weak_map_of_SomeI split: option.split)
  then show ?thesis by (simp add: in_key_order_def set_object_keys)
qed

lemma keys_in_key_order [simp]: "map fst (in_key_order ps) = object_keys ps"
  by (simp add: in_key_order_eq o_def)

lemma map_of_in_key_order: "map_of (in_key_order ps) = map_of ps"
proof
  fix k
  show "map_of (in_key_order ps) k = map_of ps k"
  proof (cases "k \<in> fst ` set ps")
    case True
    then have "map_of ps k \<noteq> None" by (simp add: map_of_eq_None_iff)
    then show ?thesis using True
      by (auto simp: in_key_order_eq map_of_map_restrict set_object_keys)
  next
    case False
    then have "map_of ps k = None" by (simp add: map_of_eq_None_iff)
    then show ?thesis using False by (simp add: in_key_order_eq map_of_map_restrict set_object_keys)
  qed
qed

lemma in_key_order_related:
  assumes "list_all2 reads_member ms kvs"
  shows "list_all2 reads_member (in_key_order ms) (in_key_order kvs)"
proof -
  have keys: "map fst ms = map fst kvs"
    using assms by (induction rule: list_all2_induct) (auto simp: reads_member_def)
  then have "object_keys ms = object_keys kvs" unfolding object_keys_def by simp
  moreover have "reads (the (map_of ms k)) (the (map_of kvs k))" if "k \<in> fst ` set ms" for k
    using assms that
    by (induction rule: list_all2_induct) (auto simp: reads_member_def)
  moreover have "set (object_keys kvs) = fst ` set ms" using keys by (metis set_object_keys list.set_map)
  ultimately show ?thesis
    by (auto simp: in_key_order_eq list.rel_map reads_member_def intro!: list.rel_refl_strong)
qed

lemma image_key: "(k, w) \<in> set (image_props kvs) \<Longrightarrow> k \<in> fst ` set kvs"
proof (induction kvs)
  case (Cons p kvs)
  then show ?case by (cases p; cases "json_image (snd p)") auto
qed simp

lemma json_props_wf_all:
  "json_props_wf kvs \<longleftrightarrow> distinct (map fst kvs) \<and> (\<forall>(k, v) \<in> set kvs. json_wf v)"
  by (induction kvs) force+

lemma json_props_wf_distinct: "json_props_wf kvs \<Longrightarrow> distinct (map fst kvs)"
  by (simp add: json_props_wf_all)

lemma distinct_image_keys: "distinct (map fst kvs) \<Longrightarrow> distinct (map fst (image_props kvs))"
proof (induction kvs)
  case (Cons p kvs)
  then show ?case by (cases p; cases "json_image (snd p)") (auto dest: image_key)
qed simp

lemma reads_member_Pair [simp]: "reads_member (k, t) (k', v) \<longleftrightarrow> k = k' \<and> reads t v"
  by (simp add: reads_member_def)

lemma json_text_reads:
  assumes "list_all json_space gap"
  shows "list_all json_space ind \<Longrightarrow> json_wf v \<Longrightarrow>
      rel_option reads (json_text gap ind v) (json_image v)"
    and "list_all json_space ind \<Longrightarrow> json_props_wf kvs \<Longrightarrow>
      list_all2 reads_member (json_props gap ind kvs) (image_props kvs)"
    and "list_all json_space ind \<Longrightarrow> json_elems_wf xs \<Longrightarrow>
      list_all2 reads (json_elems gap ind xs) (image_elems xs)"
  using assms
proof (induction gap ind v and gap ind kvs and gap ind xs rule: json_text_json_props_json_elems.induct)
  case (8 gap ind kvs)
  then have "list_all2 reads_member (json_props gap (ind @ gap) kvs) (image_props kvs)" by simp
  then show ?case
    using 8 reads_object [OF in_key_order_related, of "json_props gap (ind @ gap) kvs" "image_props kvs" gap ind]
      distinct_object_keys [OF distinct_image_keys [OF json_props_wf_distinct [of kvs]]]
    by simp
next
  case (10 gap ind k v kvs)
  then have "rel_option reads (json_text gap ind v) (json_image v)"
    "list_all2 reads_member (json_props gap ind kvs) (image_props kvs)"
    by (cases "json_text gap ind v"; simp)+
  then show ?case by (auto split: option.splits)
next
  case (12 gap ind x xs)
  then show ?case
    by (cases "json_text gap ind x"; cases "json_image x") (auto intro: reads_literal)
qed (auto intro: reads_literal reads_number reads_string reads_list)

lemma json_parse_reads: "reads t v \<Longrightarrow> json_parse t = Inr v"
  using readsD [of t v "2 * length t + 2" "[]"] by (simp add: json_parse_def skip_space_def)

lemma json_parse_text:
  assumes "list_all json_space gap" "json_wf v"
  shows "map_option json_parse (json_text gap [] v) = map_option Inr (json_image v)"
  using json_text_reads(1) [OF assms(1), of "[]" v] assms(2)
  by (cases "json_text gap [] v"; cases "json_image v") (auto intro: json_parse_reads)

section \<open>What is kept\<close>

lemma set_in_key_order: "distinct (map fst ps) \<Longrightarrow> set (in_key_order ps) = set ps"
  by (force simp: in_key_order_eq set_object_keys)

lemma image_member: "(k, w) \<in> set (image_props kvs) \<Longrightarrow> \<exists>v. (k, v) \<in> set kvs \<and> json_image v = Some w"
proof (induction kvs)
  case (Cons p kvs)
  then show ?case by (cases p; cases "json_image (snd p)") auto
qed simp

lemma map_of_image_props:
  "distinct (map fst kvs) \<Longrightarrow> map_of (image_props kvs) k = Option.bind (map_of kvs k) json_image"
proof (induction kvs)
  case (Cons p kvs)
  obtain k' v where p: "p = (k', v)" by (cases p)
  have "map_of (image_props kvs) k' = None"
    using Cons.prems p image_key [of k' _ kvs] by (fastforce simp: map_of_eq_None_iff)
  then show ?case using Cons p by (cases "json_image v") auto
qed simp

section \<open>Properties\<close>



end
