(* ===== verification/Save_Roundtrip.thy ===== *)
theory Save_Roundtrip
  imports JSON_Parse Page_Properties
begin

text \<open>
  Saving and loading, end to end: what the confirmation dialog shows, what the request carries and
  what is loaded from an answer that contains it, all read as JSON text.
\<close>

section \<open>The answer as text\<close>

text \<open>
  \<open>response.json()\<close>: the parsed body, or the message of the \<open>SyntaxError\<close>. The messages are not
  told apart.
\<close>

definition response_json :: "string \<Rightarrow> string + jsval" where
  "response_json s = (case json_parse s of Inr v \<Rightarrow> Inr v | Inl _ \<Rightarrow> Inl ''Unexpected token in JSON'')"

section \<open>Images of trees\<close>

lemma props_depth_le: "props_depth kvs \<le> n \<longleftrightarrow> (\<forall>(k, v) \<in> set kvs. tree_depth v \<le> n)"
  by (induction kvs) auto

lemma wf_props_all: "wf_props kvs \<longleftrightarrow> distinct (map fst kvs) \<and> (\<forall>(k, v) \<in> set kvs. safe_key k \<and> wf_tree v)"
  by (induction kvs) force+

text \<open>The image of a tree is a tree that is no deeper.\<close>

lemma image_wf_tree:
  "wf_tree v \<Longrightarrow> json_image v = Some w \<Longrightarrow> wf_tree w \<and> tree_depth w \<le> tree_depth v"
proof (induction v arbitrary: w)
  case (JObj kvs)
  let ?ps = "image_props kvs"
  have d: "distinct (map fst kvs)" using JObj.prems(1) by (simp add: wf_props_all)
  have dist: "distinct (map fst ?ps)" using d by (rule distinct_image_keys)
  have w: "w = JObj (in_key_order ?ps)" using JObj.prems(2) by simp
  have "safe_key k \<and> wf_tree u \<and> tree_depth u \<le> props_depth kvs" if u: "(k, u) \<in> set ?ps" for k u
  proof -
    obtain x where x: "(k, x) \<in> set kvs" "json_image x = Some u" using image_member [OF u] by blast
    then have "safe_key k" "wf_tree x" using JObj.prems(1) by (auto simp: wf_props_all)
    moreover have "tree_depth x \<le> props_depth kvs" using x(1) props_depth_le [of kvs "props_depth kvs"] by auto
    ultimately show ?thesis using JObj.IH [OF x(1)] x(2) by fastforce
  qed
  then show ?case
    using w set_in_key_order [OF dist] distinct_object_keys [OF dist]
    by (auto simp: wf_props_all props_depth_le)
qed auto

lemma image_None: "json_image v = None \<Longrightarrow> Option.bind (lookup_in v p) json_image = None"
  by (cases v; cases p) auto

lemma lookup_image:
  "json_wf t \<Longrightarrow> json_image t = Some w \<Longrightarrow> lookup_in w p = Option.bind (lookup_in t p) json_image"
proof (induction p arbitrary: t w)
  case (Cons k p)
  show ?case
  proof (cases t)
    case (JObj kvs)
    then have d: "distinct (map fst kvs)" using Cons.prems(1) json_props_wf_distinct by simp
    have w: "w = JObj (in_key_order (image_props kvs))" using Cons.prems(2) JObj by simp
    show ?thesis
    proof (cases "map_of kvs k")
      case None
      then show ?thesis using JObj w d by (simp add: map_of_in_key_order map_of_image_props)
    next
      case (Some v)
      have "json_wf v" using Cons.prems(1) JObj map_of_SomeD [OF Some]
        by (auto simp: json_props_wf_all)
      then show ?thesis
        using Some JObj w d Cons.IH [of v] image_None [of v p]
        by (cases "json_image v") (auto simp: map_of_in_key_order map_of_image_props)
    qed
  qed (use Cons.prems in auto)
qed simp

lemma image_object: "is_obj t \<Longrightarrow> \<exists>kvs. json_image t = Some (JObj kvs)"
  by (cases t) auto

lemma sent_text:
  assumes "json_wf t" "json_image t = Some u"
  shows "\<exists>sent shown. json_stringify (JObj [(''namespaces'', t)]) = Some sent \<and> json_stringify4 t = Some shown \<and>
    json_parse sent = Inr (JObj [(''namespaces'', u)]) \<and> json_parse shown = Inr u"
proof -
  have "array_index ''namespaces'' = None" by (simp add: array_index_def digit_of_def)
  then have "json_image (JObj [(''namespaces'', t)]) = Some (JObj [(''namespaces'', u)])"
    using assms(2) by (simp add: in_key_order_eq object_keys_def)
  moreover have "json_wf (JObj [(''namespaces'', t)])" using assms(1) by simp
  ultimately show ?thesis
    using json_parse_text [of "[]" "JObj [(''namespaces'', t)]"] json_parse_text [of "''    ''" t] assms
    by (auto simp: json_stringify_def json_stringify4_def)
qed

section \<open>Properties\<close>

text \<open>
  C23: What the user confirms is what is sent. Pressing Save puts one question into the dialog: its
  text, read as JSON, is the edited tree, and the body of the request it waits to send, read as JSON,
  is an object whose only member holds the same tree; at every path that tree has the value of the
  edited one. The request carries the current version, and nothing is sent yet.
\<close>

theorem confirmed_text_is_what_is_sent:
  assumes "json_wf (items (cur (rt_namespaces (store w))))" "is_obj (items (cur (rt_namespaces (store w))))"
  shows "\<exists>u r sent shown.
     rt_confirm (store (trigger_handler env w H_commit)) =
       Some (CONFIRM (Call_Api r) ''You are about to submit the following configuration.'' (Some shown)) \<and>
     body_text r = Some sent \<and>
     headers r = [(''Content-Type'', ''application/json''), (''Version'', to_str (rt_currentVersion (store w)))] \<and>
     json_parse shown = Inr u \<and> json_parse sent = Inr (JObj [(''namespaces'', u)]) \<and>
     (\<forall>p. lookup_in u p = Option.bind (lookup_in (items (cur (rt_namespaces (store w)))) p) json_image) \<and>
     pending (trigger_handler env w H_commit) = pending w"
proof -
  let ?t = "items (cur (rt_namespaces (store w)))"
  obtain u where u: "json_image ?t = Some u" using image_object [OF assms(2)] by blast
  obtain sent shown where texts: "json_stringify (JObj [(''namespaces'', ?t)]) = Some sent"
    "json_stringify4 ?t = Some shown" "json_parse sent = Inr (JObj [(''namespaces'', u)])" "json_parse shown = Inr u"
    using sent_text [OF assms(1) u] by blast
  have "rt_confirm (store (trigger_handler env w H_commit)) =
      Some (CONFIRM (Call_Api \<lparr> endpoint = ''/api'', method_name = ''POST'',
        headers = [(''Content-Type'', ''application/json''), (''Version'', to_str (rt_currentVersion (store w)))],
        body_text = Some sent, credentials = ''same-origin'', types = configs_types \<rparr>)
       ''You are about to submit the following configuration.'' (Some shown))"
    "pending (trigger_handler env w H_commit) = pending w"
    by (simp_all add: trigger_handler_def handleCommit_def Root_mapState_def handle_event_thunk_store
        commitConfig_thunk_def confirm_thunk_def run_confirm configs_types_def texts(1,2) del: run_thunk.simps)
  then show ?thesis using texts(3,4) lookup_image [OF assms(1) u] by fastforce
qed

theorem confirmed_text_is_what_is_sent_witness:
  "\<exists>u r sent shown.
     rt_confirm (store (trigger_handler sample_env initial_world H_commit)) =
       Some (CONFIRM (Call_Api r) ''You are about to submit the following configuration.'' (Some shown)) \<and>
     json_parse shown = Inr u \<and> body_text r = Some sent \<and> json_parse sent = Inr (JObj [(''namespaces'', u)])"
proof -
  have "json_wf (items (cur (rt_namespaces (store initial_world))))"
    "is_obj (items (cur (rt_namespaces (store initial_world))))"
    by (simp_all add: initial_world_def initial_root_def INITIAL_HISTORY_def)
  then show ?thesis using confirmed_text_is_what_is_sent [of initial_world sample_env] by blast
qed

text \<open>
  C18: A configuration that was saved and comes back is the one that was edited. If the server reads
  the body of the save as JSON and later answers a load with a text whose first configuration has
  the namespaces it read, then the loaded tree has at every path the value of the edited tree, with
  an empty history, and the version shown and the version for the next save are the one of that
  configuration. Neither the status of the answer nor its reason plays a part.
\<close>

theorem saved_configuration_loads_back:
  assumes "config_tree t" "tree_depth t \<le> 64" "json_wf t"
    and "json_stringify (JObj [(''namespaces'', t)]) = Some sent"
    and "json_parse sent = Inr (JObj [(''namespaces'', u)])"
    and "json_parse reply = Inr (JObj pk)" "map_of pk ''configs'' = Some (JArr (JObj kvs # cs))"
    and "map_of kvs ''namespaces'' = Some u"
  shows "let s' = store (deliver w (Await_configs False) (Response ok status reason is_json (response_json reply)));
             ns = rt_namespaces s'
         in (\<forall>p. lookup_in (items (cur ns)) p = Option.bind (lookup_in t p) json_image) \<and>
            hist ns = \<lparr> past = [], future = [] \<rparr> \<and>
            version (cur ns) = js_or (prop_of (JObj kvs) ''version'') (JNum 0) \<and>
            rt_currentVersion s' = version (cur ns) \<and> cf_items (rt_configs s') = JArr (JObj kvs # cs)"
proof -
  obtain ukvs where img: "json_image t = Some (JObj ukvs)"
    using image_object assms(1) by (auto simp: config_tree_def)
  then have u: "u = JObj ukvs" using sent_text [OF assms(3) img] assms(4,5) by auto
  have tree: "wf_tree u" "tree_depth u \<le> 64"
    using image_wf_tree [OF _ img] assms(1,2) u by (auto simp: config_tree_def)
  then have good: "good_config (JObj kvs)"
    using assms(8) u by (simp add: good_namespaces_def config_value_def)
  let ?ans = "Response ok status reason is_json (Inr (JObj pk))"
  obtain w' v where w': "fetchConfigs_finish w ?ans = (w', v)" by (cases "fetchConfigs_finish w ?ans")
  have ns: "js_or (prop_of (JObj kvs) ''namespaces'') (JObj []) = u" using assms(8) u by simp
  have "deliver w (Await_configs False) (Response ok status reason is_json (response_json reply)) = w'"
    using w' assms(6) by (simp add: response_json_def)
  then show ?thesis
    using fetch_loads_first_config [OF assms(7) good w'] lookup_image [OF assms(3) img] u
    unfolding Let_def ns by simp
qed

theorem saved_configuration_loads_back_witness:
  "\<exists>reply. let ns = rt_namespaces (store (deliver initial_world (Await_configs False)
        (Response True 200 ''OK'' True (response_json reply))))
     in lookup_in (items (cur ns)) [''ns'', ''limit''] = Some (JNum 7) \<and> version (cur ns) = JNum 4"
proof -
  let ?t = "JObj [(''ns'', JObj [(''limit'', JNum 7)])]"
  let ?kvs = "[(''version'', JNum 4), (''namespaces'', ?t)]"
  let ?reply = "JObj [(''configs'', JArr [JObj ?kvs])]"
  have names: "array_index ''ns'' = None" "array_index ''limit'' = None" "array_index ''namespaces'' = None"
    "array_index ''version'' = None" "array_index ''configs'' = None"
    by (simp_all add: array_index_def digit_of_def)
  have wf: "config_tree ?t" "tree_depth ?t \<le> 64" "json_wf ?t" "json_wf ?reply"
    by (simp_all add: config_tree_def safe_key_def immutable_names_def safe_number_def)
  have img: "json_image ?t = Some ?t" "json_image ?reply = Some ?reply"
    by (simp_all add: in_key_order_eq object_keys_def names)
  obtain sent where sent: "json_stringify (JObj [(''namespaces'', ?t)]) = Some sent"
    "json_parse sent = Inr (JObj [(''namespaces'', ?t)])"
    using sent_text [OF wf(3) img(1)] by blast
  obtain reply where reply: "json_parse reply = Inr ?reply"
    using json_parse_text [of "[]" ?reply] wf(4) img(2) by auto
  show ?thesis
    using saved_configuration_loads_back
      [OF wf(1-3) sent reply, of ?kvs "[]" initial_world True 200 "''OK''" True]
    by (intro exI [of _ reply]) (simp add: Let_def)
qed

end
