(* ===== verification/Dev_Routes.thy ===== *)
theory Dev_Routes
  imports Dev_Server Save_Roundtrip
begin

text \<open>
  The routes of the server for development (\<^verbatim>\<open>src/admin/public/server.js\<close>) and what the page gets
  from it.

  The package express is not part of the repository. How it matches a path against a pattern, the
  files it sends, and what it serves besides the routes (the bundle and the static files) are
  arguments of the model; \<open>express_match\<close> states what its documentation says about patterns, for
  paths that need no decoding.
\<close>

section \<open>Paths\<close>

fun segments :: "string \<Rightarrow> string list" where
  "segments [] = [[]]"
| "segments (c # cs) =
     (if c = CHR ''/'' then [] # segments cs
      else case segments cs of [] \<Rightarrow> [[c]] | s # ss \<Rightarrow> (c # s) # ss)"

definition lower :: "char \<Rightarrow> char" where
  "lower c = (let n = of_char c :: nat in if 65 \<le> n \<and> n \<le> 90 then char_of (n + 32) else c)"

text \<open>
  A parameter stands for one segment that is not empty; other segments are compared without regard
  to case.
\<close>

fun match_segments :: "string list \<Rightarrow> string list \<Rightarrow> (string \<times> string) list option" where
  "match_segments [] [] = Some []"
| "match_segments (p # ps) (s # ss) =
     (case p of
        c # name \<Rightarrow>
          if c = CHR '':''
          then (if s = [] then None else map_option (Cons (name, s)) (match_segments ps ss))
          else if map lower p = map lower s then match_segments ps ss else None
      | [] \<Rightarrow> if s = [] then match_segments ps ss else None)"
| "match_segments _ _ = None"

definition plain_char :: "char \<Rightarrow> bool" where
  "plain_char c =
     (let n = of_char c :: nat in
      48 \<le> n \<and> n \<le> 58 \<or> 65 \<le> n \<and> n \<le> 90 \<or> 97 \<le> n \<and> n \<le> 122 \<or> n = 45 \<or> n = 95)"

definition plain_segment :: "string \<Rightarrow> bool" where
  "plain_segment s \<longleftrightarrow> s \<noteq> [] \<and> list_all plain_char s"

definition plain_path :: "string \<Rightarrow> bool" where
  "plain_path url = (case segments url of [] \<Rightarrow> False | s # ss \<Rightarrow> s = [] \<and> list_all plain_segment ss)"

definition express_match :: "(string \<Rightarrow> string \<Rightarrow> (string \<times> string) list option) \<Rightarrow> bool" where
  "express_match matches \<longleftrightarrow>
     (\<forall>pat url. plain_path url \<longrightarrow> matches pat url = match_segments (segments pat) (segments url))"

section \<open>The routes\<close>

datatype route =
    Send_fixture string
  | Send_statistics

definition server_routes :: "(string \<times> route) list" where
  "server_routes =
     [(''/api/capabilities'', Send_fixture ''capabilities.json''),
      (''/api/configs'', Send_fixture ''configs.json''),
      (''/api/stats/:namespace'', Send_statistics)]"

record server_env =
  se_matches :: "string \<Rightarrow> string \<Rightarrow> (string \<times> string) list option"
  se_fixture :: "string \<Rightarrow> string"
    \<comment> \<open>the text of a file in the directory of the fixtures\<close>
  se_static :: "string \<Rightarrow> string option"
    \<comment> \<open>the bundle and the static files, by path\<close>
  se_random :: "nat \<Rightarrow> real"
  se_string :: "nat \<Rightarrow> string"

definition json_answer :: "string \<Rightarrow> answer" where
  "json_answer text = Response True 200 ''OK'' True (response_json text)"

definition not_found :: answer where
  "not_found = Response False 404 ''Not Found'' False (Inr JUndef)"

fun handle_route ::
  "server_env \<Rightarrow> nat \<Rightarrow> route \<Rightarrow> (string \<times> string) list \<Rightarrow> answer \<times> nat" where
  "handle_route env s (Send_fixture name) params = (json_answer (se_fixture env name), s)"
| "handle_route env s Send_statistics params =
     (case stats_body (se_random env) (se_string env) s
             (case map_of params ''namespace'' of None \<Rightarrow> [] | Some n \<Rightarrow> n) of
        (body, s') \<Rightarrow> (json_answer (case json_stringify (JObj body) of None \<Rightarrow> [] | Some t \<Rightarrow> t), s'))"

text \<open>The first route that matches answers; \<open>get\<close> routes and static files only answer \<open>GET\<close>.\<close>

fun find_route ::
  "server_env \<Rightarrow> nat \<Rightarrow> (string \<times> route) list \<Rightarrow> string \<Rightarrow> answer \<times> nat" where
  "find_route env s [] url =
     (case se_static env url of
        None \<Rightarrow> (not_found, s)
      | Some text \<Rightarrow> (Response True 200 ''OK'' False (response_json text), s))"
| "find_route env s ((pat, r) # rs) url =
     (case se_matches env pat url of
        None \<Rightarrow> find_route env s rs url
      | Some params \<Rightarrow> handle_route env s r params)"

definition serve :: "server_env \<Rightarrow> nat \<Rightarrow> string \<Rightarrow> string \<Rightarrow> answer \<times> nat" where
  "serve env s request_method url =
     (if request_method = ''GET'' then find_route env s server_routes url else (not_found, s))"

section \<open>Paths of the page\<close>

lemma segments_plain: "CHR ''/'' \<notin> set n \<Longrightarrow> segments n = [n]"
  by (induction n) auto

lemma segments_append: "CHR ''/'' \<notin> set n \<Longrightarrow> segments (n @ CHR ''/'' # r) = n # segments r"
  by (induction n) auto

lemma plain_segment_slash: "plain_segment n \<Longrightarrow> CHR ''/'' \<notin> set n"
  by (auto simp: plain_segment_def plain_char_def list_all_iff)

lemma stats_paths:
  assumes "plain_segment n"
  shows "segments (endpoint (fetchStatsAction n None)) = [[], ''api'', ''stats'', n]"
    and "plain_segment b \<Longrightarrow>
         segments (endpoint (fetchStatsAction n (Some b))) = [[], ''api'', ''stats'', n, b]"
  using segments_plain [OF plain_segment_slash [OF assms]] segments_append [OF plain_segment_slash [OF assms], of b]
    segments_plain [OF plain_segment_slash [of b]]
  by (auto simp: fetchStatsAction_def plain_segment_def)

lemma route_segments:
  "segments ''/api/capabilities'' = [[], ''api'', ''capabilities'']"
  "segments ''/api/configs'' = [[], ''api'', ''configs'']"
  "segments ''/api/stats/:namespace'' = [[], ''api'', ''stats'', '':namespace'']"
  "segments ''/api'' = [[], ''api'']"
  by simp_all

lemma plain_api [simp]:
  "plain_segment ''api''" "plain_segment ''stats''" "plain_segment ''configs''" "plain_segment ''capabilities''"
  by (simp_all add: plain_segment_def plain_char_def)

lemma lower_api:
  "map lower ''api'' = ''api''" "map lower ''stats'' = ''stats''" "map lower ''configs'' = ''configs''"
  "map lower ''capabilities'' = ''capabilities''"
  by (simp_all add: lower_def)

lemma route_match:
  assumes "express_match matches" "segments url = [] # ss" "list_all plain_segment ss"
  shows "matches pat url = match_segments (segments pat) ([] # ss)"
  using assms by (simp add: express_match_def plain_path_def)

lemmas routing = serve_def server_routes_def route_segments lower_api

lemma routes_fixtures:
  assumes "express_match (se_matches env)"
  shows "serve env s ''GET'' ''/api/configs'' = (json_answer (se_fixture env ''configs.json''), s)"
    and "serve env s ''GET'' ''/api/capabilities'' = (json_answer (se_fixture env ''capabilities.json''), s)"
  using route_match [OF assms route_segments(2)] route_match [OF assms route_segments(1)]
  by (simp_all add: routing del: segments.simps list.map(2))

lemma routes_stats:
  assumes "express_match (se_matches env)" "plain_segment n"
  shows "serve env s ''GET'' (endpoint (fetchStatsAction n None)) =
           handle_route env s Send_statistics [(''namespace'', n)]"
    and "plain_segment b \<Longrightarrow> serve env s ''GET'' (endpoint (fetchStatsAction n (Some b))) =
           find_route env s [] (endpoint (fetchStatsAction n (Some b)))"
proof -
  have n: "n \<noteq> []" using assms(2) by (simp add: plain_segment_def)
  show "serve env s ''GET'' (endpoint (fetchStatsAction n None)) =
      handle_route env s Send_statistics [(''namespace'', n)]"
    using route_match [OF assms(1) stats_paths(1) [OF assms(2)]] assms(2) n
    by (simp add: routing del: segments.simps list.map(2) handle_route.simps)
  show "serve env s ''GET'' (endpoint (fetchStatsAction n (Some b))) =
      find_route env s [] (endpoint (fetchStatsAction n (Some b)))" if "plain_segment b"
    using route_match [OF assms(1) stats_paths(2) [OF assms(2) that]] assms(2) that n
    by (simp add: routing del: segments.simps list.map(2) handle_route.simps find_route.simps(1))
qed

lemma image_made_up: "list_all made_up xs \<Longrightarrow> image_elems xs = xs \<and> json_elems_wf xs"
proof (induction xs)
  case (Cons x xs)
  then have "json_image x = Some x \<and> json_wf x"
    by (auto simp: made_up_def in_key_order_eq object_keys_def array_index_def digit_of_def safe_number_def)
  then show ?case using Cons by simp
qed simp

lemma made_up_answer:
  assumes "random_numbers random"
  shows "json_answer (case json_stringify (JObj (fst (stats_body random generate_string s n))) of
      None \<Rightarrow> [] | Some t \<Rightarrow> t) =
    Response True 200 ''OK'' True (Inr (JObj (fst (stats_body random generate_string s n))))"
proof -
  obtain hits s1 misses s2 where
    h: "generate random generate_string s = (hits, s1)" "list_all made_up hits" and
    m: "generate random generate_string s1 = (misses, s2)" "list_all made_up misses"
    using generate_spec [OF assms, of generate_string] by metis
  let ?v = "JObj [(''namespace'', JStr n), (''topHits'', JArr hits), (''topMisses'', JArr misses)]"
  have "json_image ?v = Some ?v" "json_wf ?v"
    using image_made_up [OF h(2)] image_made_up [OF m(2)]
    by (simp_all add: in_key_order_eq object_keys_def array_index_def digit_of_def)
  then obtain t where "json_stringify ?v = Some t" "json_parse t = Inr ?v"
    using json_parse_text [of "[]" ?v] by (auto simp: json_stringify_def)
  then show ?thesis
    using h m by (simp add: stats_body_def json_answer_def response_json_def)
qed

section \<open>What the page gets\<close>

lemma stats_failure:
  "store (deliver w (Await_api (fetchStatsAction n b)) (Response False status reason False body)) =
     (store w)\<lparr> rt_stats := (rt_stats (store w))\<lparr> st_inRequest := Some False,
                   st_error := api_error status reason JUndef \<rparr>, rt_confirm := None \<rparr>"
  by (simp add: fetchStatsAction_def Let_def getJSON_def api_action_def next_async_store base_dispatch_def
      rootReducer_def history_other)


text \<open>An instance of the arguments: a server that matches by segments and has no static files.\<close>

definition sample_server :: server_env where
  "sample_server =
     \<lparr> se_matches = (\<lambda>pat url. match_segments (segments pat) (segments url)),
       se_fixture = (\<lambda>name. ''{}''), se_static = (\<lambda>url. None),
       se_random = (\<lambda>i. 1 / 2), se_string = (\<lambda>i. ''b'') \<rparr>"


end
