(* ===== verification/Page_Invariants.thy ===== *)
theory Page_Invariants
  imports Page_Properties
begin

text \<open>
  Properties of all elements and handlers of a page. A page is expanded component by component; what
  holds of every element that is created and of every handler that is attached on the way holds of
  the whole page. \<open>page_invariant\<close> states what has to be shown for one component and gives the
  conclusion for the page; it is interpreted for the question in the dialog and for the edits that a
  page without permission must not offer.
\<close>

section \<open>Nodes\<close>

fun node_ok :: "(handler \<Rightarrow> bool) \<Rightarrow> (element \<Rightarrow> bool) \<Rightarrow> vnode \<Rightarrow> bool" where
  "node_ok P Q (Txt s) = True"
| "node_ok P Q (El t as cs) = (list_all P (attr_handlers as) \<and> list_all (node_ok P Q) cs)"
| "node_ok P Q (Comp e) = Q e"

lemma node_ok_handlers: "node_ok P (\<lambda>e. False) v \<Longrightarrow> list_all P (handlers_of v)"
  by (induction v) (auto simp: list_all_iff)

lemma node_ok_child: "child_of v = Inr cs \<Longrightarrow> list_all (node_ok P Q) cs"
  "children_of vs = Inr cs \<Longrightarrow> list_all (node_ok P Q) cs"
  by (induction v and vs arbitrary: cs and cs rule: child_of_children_of.induct) (auto simp: js_simps)

lemma list_all_result:
  "map_result f xs = Inr ys \<Longrightarrow> (\<And>x y. x \<in> set xs \<Longrightarrow> f x = Inr y \<Longrightarrow> P y) \<Longrightarrow> list_all P ys"
  by (auto simp: list_all_iff dest: map_result_mem)

lemma list_all_concat_map: "list_all P (concat (map f xs)) \<longleftrightarrow> (\<forall>x \<in> set xs. list_all P (f x))"
  by (induction xs) auto

text \<open>The handlers that the user can trigger on the whole page.\<close>

definition page_handlers :: "page \<Rightarrow> locals \<Rightarrow> handler list" where
  "page_handlers pg l = (case render_page pg l of Inl e \<Rightarrow> [] | Inr ds \<Rightarrow> concat (map handlers_of ds))"

text \<open>The elements that are created while a node is expanded.\<close>

fun created :: "page \<Rightarrow> locals \<Rightarrow> nat \<Rightarrow> vnode \<Rightarrow> element list" where
  "created pg l n (Txt s) = []"
| "created pg l n (El t as cs) = concat (map (created pg l n) cs)"
| "created pg l 0 (Comp e) = [e]"
| "created pg l (Suc n) (Comp e) =
     e # (case render_element pg l e of Inl _ \<Rightarrow> [] | Inr vs \<Rightarrow> concat (map (created pg l n) vs))"

definition page_elements :: "page \<Rightarrow> locals \<Rightarrow> element list" where
  "page_elements pg l = (case QuotaService_render pg of Inl _ \<Rightarrow> [] | Inr v \<Rightarrow> created pg l 4 v)"

locale page_invariant =
  fixes handler_ok :: "page \<Rightarrow> handler \<Rightarrow> bool"
    and element_ok :: "page \<Rightarrow> element \<Rightarrow> bool"
  assumes component: "element_ok pg e \<Longrightarrow> render_element pg l e = Inr vs \<Longrightarrow>
    list_all (node_ok (handler_ok pg) (element_ok pg)) vs"
begin

lemma expand_ok:
  "expand pg l n v = Inr ds \<Longrightarrow> node_ok (handler_ok pg) (element_ok pg) v \<Longrightarrow>
   list_all (node_ok (handler_ok pg) (\<lambda>e. False)) ds"
  "expand_all pg l n vs = Inr ds \<Longrightarrow> list_all (node_ok (handler_ok pg) (element_ok pg)) vs \<Longrightarrow>
   list_all (node_ok (handler_ok pg) (\<lambda>e. False)) ds"
proof (induction pg l n v and pg l n vs arbitrary: ds and ds rule: expand_expand_all.induct)
  case (4 pg l n e)
  then show ?case using component by (auto simp: js_simps)
qed (auto simp: js_simps)

lemma created_ok:
  "node_ok (handler_ok pg) (element_ok pg) v \<Longrightarrow> list_all (element_ok pg) (created pg l n v)"
proof (induction pg l n v rule: created.induct)
  case (4 pg l n e)
  then show ?case
    using component [of pg e l] by (cases "render_element pg l e") (auto simp: list_all_concat_map list_all_iff)
qed (auto simp: list_all_concat_map list_all_iff)

lemma page_elements_ok:
  assumes "\<And>v. QuotaService_render pg = Inr v \<Longrightarrow> node_ok (handler_ok pg) (element_ok pg) v"
  shows "list_all (element_ok pg) (page_elements pg l)"
  using assms created_ok by (auto simp: page_elements_def split: sum.split)

lemma page_handlers_ok:
  assumes "\<And>v. QuotaService_render pg = Inr v \<Longrightarrow> node_ok (handler_ok pg) (element_ok pg) v"
  shows "list_all (handler_ok pg) (page_handlers pg l)"
proof (cases "render_page pg l")
  case (Inr ds)
  then obtain v where "QuotaService_render pg = Inr v" "expand pg l 4 v = Inr ds"
    by (auto simp: render_page_def js_simps)
  then have "list_all (node_ok (handler_ok pg) (\<lambda>e. False)) ds" using expand_ok(1) assms by blast
  then show ?thesis
    using Inr node_ok_handlers by (fastforce simp: page_handlers_def list_all_iff)
qed (simp add: page_handlers_def)

end

section \<open>The nodes of each component\<close>

lemma list_all_node_simps [simp]: "list_all (node_ok P Q) (map Comp es) \<longleftrightarrow> list_all Q es"
  by (simp add: list_all_iff)

lemma node_ok_AddField: "node_ok P Q (AddField_render v ph t hc hs) \<longleftrightarrow> P hs \<and> P hc"
  by (simp add: AddField_render_def attr_handlers_def cls_def)

lemma node_ok_Field: "node_ok P Q (Field_render p st) \<longleftrightarrow> fp_disabled p \<or> P (H_field_input p)"
  by (simp add: Field_render_def attr_handlers_def cls_def split: option.split)

lemma node_ok_Change: "Change_render c ch = Inr v \<Longrightarrow> node_ok P Q v"
  by (auto simp: Change_render_def description_def js_simps node_ok_child attr_handlers_def cls_def
      split: option.splits if_splits)

lemma node_ok_Changes:
  "node_ok P Q (Changes_render h) \<longleftrightarrow>
     (past h \<noteq> [] \<longrightarrow> P H_undo) \<and> (future h \<noteq> [] \<longrightarrow> P H_redo) \<and> P H_refresh \<and> P H_commit \<and>
     list_all (\<lambda>e. Q (E_Change ''future'' (e_change e))) (future h) \<and>
     list_all (\<lambda>e. Q (E_Change ''past'' (e_change e))) (past h)"
  by (auto simp: Changes_render_def renderChanges_list_def attr_handlers_def cls_def list.pred_map o_def)

lemma node_ok_Config: "Config_render c h = Inr v \<Longrightarrow> P h \<Longrightarrow> node_ok P Q v"
  by (auto simp: Config_render_def js_simps node_ok_child attr_handlers_def cls_def)

lemma node_ok_Configs:
  assumes "Configs_render its = Inr vs" "\<And>cs c. its = JArr cs \<Longrightarrow> c \<in> set cs \<Longrightarrow> Q (E_Config c (H_load c))"
  shows "list_all (node_ok P Q) vs"
proof (cases "its = JUndef")
  case False
  then obtain cs es where cs: "its = JArr cs" "map_result config_entry cs = Inr es"
    "vs = [El ''div'' [cls ''configs''] es]"
    using assms(1) by (auto simp: Configs_render_def js_simps split: jsval.splits)
  have "list_all (node_ok P Q) es"
    using cs(2) by (rule list_all_result) (use cs(1) assms(2) in \<open>auto simp: config_entry_def js_simps\<close>)
  then show ?thesis using cs(3) by (simp add: attr_handlers_def cls_def)
qed (use assms in \<open>simp add: Configs_render_def\<close>)

lemma node_ok_Error: "Error_render e = Inr v \<Longrightarrow> node_ok P Q v"
  by (auto simp: Error_render_def js_simps node_ok_child attr_handlers_def cls_def)

lemma node_ok_Confirmation: "node_ok P Q (Confirmation_render a h b) \<longleftrightarrow> P H_clear_confirm \<and> P (H_confirm a)"
  by (simp add: Confirmation_render_def attr_handlers_def cls_def split: option.split)

lemma node_ok_Header:
  "NamespaceHeader_render ns can h = Inr v \<Longrightarrow> P h \<Longrightarrow>
   (\<And>name. can \<noteq> Some False \<Longrightarrow> get_prop ns ''name'' = Inr name \<Longrightarrow> P (H_remove_namespace name)) \<Longrightarrow>
   node_ok P Q v"
  by (auto simp: NamespaceHeader_render_def js_simps node_ok_child attr_handlers_def cls_def)

lemma node_ok_Bucket:
  "Bucket_render p = Inr v \<Longrightarrow>
   (bp_canMakeChanges p \<noteq> Some False \<Longrightarrow>
      P (H_remove_bucket (bp_namespace_name p) (im_prop (bp_bucket p) ''name''))) \<Longrightarrow>
   (bp_showDynamicStats p \<Longrightarrow> P H_toggle_stats) \<Longrightarrow>
   list_all (\<lambda>f. node_ok P Q (bucket_field p (im_prop (bp_bucket p) ''name'') f)) bucket_fields \<Longrightarrow>
   node_ok P Q v"
  by (auto simp: Bucket_render_def Let_def js_simps node_ok_child attr_handlers_def cls_def
      renderShowDynamicStats_def list.pred_map o_def split: if_splits)

lemma node_ok_renderBucket:
  "list_all (node_ok P Q) (renderBucket n can s b) \<longleftrightarrow>
   (truthy b \<longrightarrow> Q (E_Bucket \<lparr> bp_namespace_name = n, bp_bucket = b, bp_canMakeChanges = can,
                              bp_showDynamicStats = s \<rparr>))"
  by (simp add: renderBucket_def)

lemma node_ok_Namespace:
  assumes "Namespace_render ns can = Inr v" "Q (E_NamespaceHeader ns (Some can) H_select_none)"
    and "\<And>p. fp_parent p = im_prop ns ''name'' \<Longrightarrow> fp_disabled p = (\<not> can) \<Longrightarrow>
           fp_keyName p = ''max_dynamic_buckets'' \<Longrightarrow> fp_target p = Of_namespace (fp_parent p) \<Longrightarrow> Q (E_Field p)"
    and "\<And>b s. truthy b \<Longrightarrow> b \<in> {im_prop ns ''dynamic_bucket_template'', im_prop ns ''default_bucket''}
            \<union> set (bucket_values (im_prop ns ''buckets'')) \<Longrightarrow>
          Q (E_Bucket \<lparr> bp_namespace_name = im_prop ns ''name'', bp_bucket = b,
               bp_canMakeChanges = Some can, bp_showDynamicStats = s \<rparr>)"
  shows "node_ok P Q v"
  using assms
  by (auto simp: Namespace_render_def Let_def attr_handlers_def cls_def node_ok_renderBucket
      list_all_concat_map split: if_splits)

lemma node_ok_tile_bucket: "tile_bucket b = Inr vs \<Longrightarrow> list_all (node_ok P Q) vs"
  by (auto simp: tile_bucket_def js_simps node_ok_child attr_handlers_def cls_def split: if_splits)

lemma node_ok_NamespaceTile:
  assumes "NamespaceTile_render p st = Inr v" "P (tile_onClick p st)"
  shows "node_ok P Q v"
proof -
  have "list_all (node_ok P Q) (concat bs)" if "map_result tile_bucket xs = Inr bs" for xs bs
    using list_all_result [OF that, of "list_all (node_ok P Q)"] node_ok_tile_bucket
    by (auto simp: list_all_iff)
  then show ?thesis
    using assms by (auto simp: NamespaceTile_render_def Let_def js_simps node_ok_child attr_handlers_def
        cls_def simp del: map_result.simps split: if_splits)
qed

lemma node_ok_Namespaces:
  assumes "Namespaces_render pg = Inr v"
    and "\<And>k p. tp_namespace p = im_prop (items (cur (rt_namespaces (p_state pg)))) k \<Longrightarrow>
           k \<in> set (object_keys (own_props (items (cur (rt_namespaces (p_state pg)))))) \<Longrightarrow>
           \<not> nullish (tp_namespace p) \<Longrightarrow> Q (E_NamespaceTile k p)"
  shows "node_ok P Q v"
proof -
  let ?its = "items (cur (rt_namespaces (p_state pg)))"
  have "list_all (node_ok P Q) ts"
    if "map_result (namespace_tile pg ?its) (object_keys (own_props ?its)) = Inr ts" for ts
    using that by (rule list_all_result)
      (auto simp: namespace_tile_def Let_def js_simps get_prop_def intro!: assms(2) split: if_splits)
  then show ?thesis
    using assms(1) by (auto simp: Namespaces_render_def Let_def js_simps attr_handlers_def cls_def
        split: if_splits)
qed

lemma node_ok_SelectedNamespace:
  assumes "\<And>sel. p_selected pg = Some sel \<Longrightarrow> st_show (rt_stats (p_state pg)) \<Longrightarrow> Q (E_Stats (s_namespace sel))"
    and "\<And>sel. p_selected pg = Some sel \<Longrightarrow> \<not> st_show (rt_stats (p_state pg)) \<Longrightarrow>
           Q (E_Namespace (s_namespace sel) (s_canMakeChanges sel))"
  shows "list_all (node_ok P Q) (SelectedNamespace_render pg)"
  using assms by (auto simp: SelectedNamespace_render_def attr_handlers_def cls_def split: option.split)

lemma node_ok_stat_row: "stat_row t v = Inr r \<Longrightarrow> node_ok P Q r"
  by (auto simp: stat_row_def js_simps node_ok_child attr_handlers_def cls_def)

lemma node_ok_top_row: "top_row v = Inr r \<Longrightarrow> node_ok P Q r"
  by (auto simp: top_row_def js_simps node_ok_child attr_handlers_def cls_def)

lemma node_ok_TopList: "renderTopList t v = Inr vs \<Longrightarrow> list_all (node_ok P Q) vs"
proof -
  assume "renderTopList t v = Inr vs"
  moreover have "list_all (node_ok P Q) rows" if "map_result top_row xs = Inr rows" for xs rows
    using that by (rule list_all_result) (rule node_ok_top_row)
  ultimately show ?thesis
    by (auto simp: renderTopList_def js_simps attr_handlers_def cls_def split: if_splits jsval.splits)
qed

lemma node_ok_Stats:
  assumes "Stats_render ns ss st = Inr v" "Q (E_NamespaceHeader ns None H_toggle_stats)" "P H_search"
    and "truthy (st_error ss) \<Longrightarrow> Q (E_Error (st_error ss))"
  shows "node_ok P Q v"
  using assms
  by (auto simp: Stats_render_def Let_def js_simps renderBucketSearch_def renderBucketStats_def
      renderStatsError_def node_ok_stat_row attr_handlers_def cls_def dest: node_ok_TopList split: if_splits)

lemma node_ok_special_buttons:
  assumes "renderSpecialBucketButtons pg = Inr vs"
    and "Sidebar_canMakeChanges pg \<Longrightarrow> (\<And>b. P (H_add_bucket (Some b)))"
  shows "list_all (node_ok P Q) vs"
proof -
  have "list_all (node_ok P Q) (concat bs)"
    if "map_result (special_button ns) xs = Inr bs" "Sidebar_canMakeChanges pg" for ns xs bs
  proof -
    have "list_all (list_all (node_ok P Q)) bs"
      using that(1) by (rule list_all_result)
        (use assms(2) [OF that(2)] in \<open>auto simp: special_button_def js_simps attr_handlers_def cls_def split: if_splits\<close>)
    then show ?thesis by (auto simp: list_all_iff)
  qed
  then show ?thesis
    using assms(1) by (auto simp: renderSpecialBucketButtons_def js_simps attr_handlers_def cls_def
        simp del: map_result.simps concat_eq_Nil_conv split: option.splits if_splits)
qed

lemma node_ok_Sidebar:
  assumes "Sidebar_render pg st = Inr v"
    and "Q (E_AddField (sb_namespace st) ''Namespace name'' ''Add Namespace'' (H_set_text ''namespace'') H_add_namespace)"
    and "Sidebar_canMakeChanges pg \<Longrightarrow>
         Q (E_AddField (sb_bucket st) ''Bucket name'' ''Add Bucket'' (H_set_text ''bucket'') (H_add_bucket None))"
    and "Sidebar_canMakeChanges pg \<Longrightarrow> (\<And>b. P (H_add_bucket (Some b)))"
    and "truthy (cf_error (rt_configs (p_state pg))) \<Longrightarrow> Q (E_Error (cf_error (rt_configs (p_state pg))))"
    and "Q (E_Changes (hist (rt_namespaces (p_state pg))))" "Q (E_Configs (cf_items (rt_configs (p_state pg))))"
  shows "node_ok P Q v"
  using assms
  by (auto simp: Sidebar_render_def renderVersion_def Let_def js_simps renderAddNamespace_def
      renderAddBucket_def Sidebar_renderError_def renderChanges_def renderConfigs_def attr_handlers_def cls_def
      dest!: node_ok_special_buttons [where P = P and Q = Q])

lemma node_ok_QuotaService:
  assumes "QuotaService_render pg = Inr v"
    and "\<And>d h b. rt_confirm (p_state pg) = Some (CONFIRM d h b) \<Longrightarrow> Q (E_Confirmation d h b)"
    and "Q E_Sidebar" "\<not> isLoading pg \<Longrightarrow> Q E_Namespaces" "Q E_SelectedNamespace"
  shows "node_ok P Q v"
  using assms
  by (auto simp: QuotaService_render_def Let_def js_simps renderConfirmation_def renderLoading_def
      attr_handlers_def cls_def split: option.splits action.splits if_splits)

section \<open>What a component needs\<close>

text \<open>
  The elements that rendering an element creates and the handlers it attaches, as conditions on the
  predicates for both.
\<close>

fun element_needs :: "page \<Rightarrow> (handler \<Rightarrow> bool) \<Rightarrow> (element \<Rightarrow> bool) \<Rightarrow> locals \<Rightarrow> element \<Rightarrow> bool" where
  "element_needs pg P Q l (E_AddField v ph t hc hs) = (P hs \<and> P hc)"
| "element_needs pg P Q l (E_Change c ch) = True"
| "element_needs pg P Q l (E_Changes h) =
     ((past h \<noteq> [] \<longrightarrow> P H_undo) \<and> (future h \<noteq> [] \<longrightarrow> P H_redo) \<and> P H_refresh \<and> P H_commit \<and>
      list_all (\<lambda>e. Q (E_Change ''future'' (e_change e))) (future h) \<and>
      list_all (\<lambda>e. Q (E_Change ''past'' (e_change e))) (past h))"
| "element_needs pg P Q l (E_Config c h) = P h"
| "element_needs pg P Q l (E_Configs its) =
     (\<forall>cs. its = JArr cs \<longrightarrow> (\<forall>c \<in> set cs. Q (E_Config c (H_load c))))"
| "element_needs pg P Q l (E_Error e) = True"
| "element_needs pg P Q l (E_Field p) = (fp_disabled p \<or> P (H_field_input p))"
| "element_needs pg P Q l (E_Bucket p) =
     ((bp_canMakeChanges p \<noteq> Some False \<longrightarrow>
         P (H_remove_bucket (bp_namespace_name p) (im_prop (bp_bucket p) ''name''))) \<and>
      (bp_showDynamicStats p \<longrightarrow> P H_toggle_stats) \<and>
      list_all (\<lambda>f. node_ok P Q (bucket_field p (im_prop (bp_bucket p) ''name'') f)) bucket_fields)"
| "element_needs pg P Q l (E_NamespaceHeader ns can h) =
     (P h \<and> (can \<noteq> Some False \<longrightarrow> (\<forall>name. get_prop ns ''name'' = Inr name \<longrightarrow> P (H_remove_namespace name))))"
| "element_needs pg P Q l (E_NamespaceTile k p) = P (tile_onClick p (l_tile l k))"
| "element_needs pg P Q l (E_Namespace ns can) =
     (Q (E_NamespaceHeader ns (Some can) H_select_none) \<and>
      (\<forall>p. fp_parent p = im_prop ns ''name'' \<longrightarrow> fp_disabled p = (\<not> can) \<longrightarrow>
         fp_keyName p = ''max_dynamic_buckets'' \<longrightarrow> fp_target p = Of_namespace (fp_parent p) \<longrightarrow> Q (E_Field p)) \<and>
      (\<forall>b s. truthy b \<longrightarrow> b \<in> {im_prop ns ''dynamic_bucket_template'', im_prop ns ''default_bucket''}
            \<union> set (bucket_values (im_prop ns ''buckets'')) \<longrightarrow>
          Q (E_Bucket \<lparr> bp_namespace_name = im_prop ns ''name'', bp_bucket = b,
               bp_canMakeChanges = Some can, bp_showDynamicStats = s \<rparr>)))"
| "element_needs pg P Q l (E_Stats ns) =
     (Q (E_NamespaceHeader ns None H_toggle_stats) \<and> P H_search \<and>
      (truthy (st_error (rt_stats (p_state pg))) \<longrightarrow> Q (E_Error (st_error (rt_stats (p_state pg))))))"
| "element_needs pg P Q l E_Sidebar =
     (Q (E_AddField (sb_namespace (l_sidebar l)) ''Namespace name'' ''Add Namespace''
           (H_set_text ''namespace'') H_add_namespace) \<and>
      (Sidebar_canMakeChanges pg \<longrightarrow>
         Q (E_AddField (sb_bucket (l_sidebar l)) ''Bucket name'' ''Add Bucket''
             (H_set_text ''bucket'') (H_add_bucket None)) \<and>
         (\<forall>b. P (H_add_bucket (Some b)))) \<and>
      (truthy (cf_error (rt_configs (p_state pg))) \<longrightarrow> Q (E_Error (cf_error (rt_configs (p_state pg))))) \<and>
      Q (E_Changes (hist (rt_namespaces (p_state pg)))) \<and> Q (E_Configs (cf_items (rt_configs (p_state pg)))))"
| "element_needs pg P Q l E_Namespaces =
     (\<forall>k p. tp_namespace p = im_prop (items (cur (rt_namespaces (p_state pg)))) k \<longrightarrow>
        k \<in> set (object_keys (own_props (items (cur (rt_namespaces (p_state pg)))))) \<longrightarrow>
        \<not> nullish (tp_namespace p) \<longrightarrow> Q (E_NamespaceTile k p))"
| "element_needs pg P Q l E_SelectedNamespace =
     (\<forall>sel. p_selected pg = Some sel \<longrightarrow>
        (if st_show (rt_stats (p_state pg)) then Q (E_Stats (s_namespace sel))
         else Q (E_Namespace (s_namespace sel) (s_canMakeChanges sel))))"
| "element_needs pg P Q l (E_Confirmation d h b) = (P H_clear_confirm \<and> P (H_confirm d))"

lemma element_needs_enough:
  assumes "element_needs pg P Q l e" "render_element pg l e = Inr vs"
  shows "list_all (node_ok P Q) vs"
proof (cases e)
  case (E_Configs its)
  then show ?thesis using assms node_ok_Configs by (metis element_needs.simps(5) render_element.simps(5))
next
  case (E_NamespaceHeader ns can h)
  then obtain v where v: "vs = [v]" "NamespaceHeader_render ns can h = Inr v"
    using assms(2) by (auto simp: js_simps)
  have "node_ok P Q v" by (rule node_ok_Header [OF v(2)]) (use assms(1) E_NamespaceHeader in auto)
  then show ?thesis using v(1) by simp
next
  case (E_Bucket p)
  then show ?thesis using assms by (auto simp: js_simps intro: node_ok_Bucket)
next
  case (E_Namespace ns can)
  then obtain v where v: "vs = [v]" "Namespace_render ns can = Inr v" using assms(2) by (auto simp: js_simps)
  have "node_ok P Q v" by (rule node_ok_Namespace [OF v(2)]) (use assms(1) E_Namespace in auto)
  then show ?thesis using v(1) by simp
next
  case (E_Stats ns)
  then show ?thesis using assms by (auto simp: js_simps intro: node_ok_Stats)
next
  case E_Sidebar
  then obtain v where v: "vs = [v]" "Sidebar_render pg (l_sidebar l) = Inr v"
    using assms(2) by (auto simp: js_simps)
  have "node_ok P Q v" by (rule node_ok_Sidebar [OF v(2)]) (use assms(1) E_Sidebar in auto)
  then show ?thesis using v(1) by simp
next
  case E_Namespaces
  then obtain v where v: "vs = [v]" "Namespaces_render pg = Inr v" using assms(2) by (auto simp: js_simps)
  have "node_ok P Q v" by (rule node_ok_Namespaces [OF v(2)]) (use assms(1) E_Namespaces in auto)
  then show ?thesis using v(1) by simp
next
  case E_SelectedNamespace
  then show ?thesis using assms by (auto intro!: node_ok_SelectedNamespace)
next
  case (E_NamespaceTile k p)
  then show ?thesis using assms by (auto simp: js_simps intro: node_ok_NamespaceTile)
qed (use assms in \<open>auto simp: js_simps node_ok_AddField node_ok_Field node_ok_Changes
      node_ok_Confirmation node_ok_Change node_ok_Error node_ok_Config\<close>)

section \<open>The dialog\<close>

text \<open>A handler that confirms is for the action the store holds a question about.\<close>

definition asked :: "page \<Rightarrow> handler \<Rightarrow> bool" where
  "asked pg h =
     (case h of
        H_confirm d \<Rightarrow> (\<exists>header body. rt_confirm (p_state pg) = Some (CONFIRM d header body))
      | _ \<Rightarrow> True)"

definition asked_element :: "page \<Rightarrow> element \<Rightarrow> bool" where
  "asked_element pg e =
     (case e of
        E_Confirmation d header body \<Rightarrow> rt_confirm (p_state pg) = Some (CONFIRM d header body)
      | E_AddField _ _ _ hc hs \<Rightarrow> asked pg hc \<and> asked pg hs
      | E_Config _ h \<Rightarrow> asked pg h
      | E_NamespaceHeader _ _ h \<Rightarrow> asked pg h
      | _ \<Rightarrow> True)"

lemma asked_needs: "asked_element pg e \<Longrightarrow> element_needs pg (asked pg) (asked_element pg) l e"
  by (cases e) (auto simp: asked_element_def asked_def bucket_field_def tile_onClick_def list_all_iff)

interpretation dialog: page_invariant asked asked_element
  by unfold_locales (rule element_needs_enough [OF asked_needs])

lemma page_confirms_asked:
  assumes "H_confirm d \<in> set (page_handlers pg l)"
  shows "\<exists>h b. rt_confirm (p_state pg) = Some (CONFIRM d h b)"
proof -
  have "list_all (asked pg) (page_handlers pg l)"
    by (rule dialog.page_handlers_ok, rule node_ok_QuotaService) (simp_all add: asked_element_def)
  then show ?thesis using assms by (auto simp: list_all_iff asked_def)
qed

section \<open>Permissions\<close>

definition edits_selected :: "handler \<Rightarrow> bool" where
  "edits_selected h =
     (case h of
        H_field_input _ \<Rightarrow> True
      | H_remove_bucket _ _ \<Rightarrow> True
      | H_remove_namespace _ \<Rightarrow> True
      | H_add_bucket _ \<Rightarrow> True
      | _ \<Rightarrow> False)"

text \<open>A namespace is shown, not its statistics, and the user may not change it.\<close>

definition read_only :: "page \<Rightarrow> bool" where
  "read_only pg \<longleftrightarrow>
     (\<exists>sel. p_selected pg = Some sel \<and> \<not> s_canMakeChanges sel) \<and> \<not> st_show (rt_stats (p_state pg))"

definition no_edit :: "page \<Rightarrow> handler \<Rightarrow> bool" where
  "no_edit pg h \<longleftrightarrow> read_only pg \<longrightarrow> \<not> edits_selected h"

definition no_edit_element :: "page \<Rightarrow> element \<Rightarrow> bool" where
  "no_edit_element pg e \<longleftrightarrow> read_only pg \<longrightarrow>
     (case e of
        E_Field p \<Rightarrow> fp_disabled p
      | E_Bucket p \<Rightarrow> bp_canMakeChanges p = Some False
      | E_NamespaceHeader _ can h \<Rightarrow> can = Some False \<and> \<not> edits_selected h
      | E_Namespace _ can \<Rightarrow> \<not> can
      | E_Stats _ \<Rightarrow> False
      | E_AddField _ _ _ hc hs \<Rightarrow> \<not> edits_selected hc \<and> \<not> edits_selected hs
      | E_Config _ h \<Rightarrow> \<not> edits_selected h
      | _ \<Rightarrow> True)"

lemma no_edit_needs:
  assumes "no_edit_element pg e"
  shows "element_needs pg (no_edit pg) (no_edit_element pg) l e"
proof (cases "read_only pg")
  case False
  then show ?thesis
    by (cases e) (auto simp: no_edit_def no_edit_element_def bucket_field_def list_all_iff)
next
  case True
  then have "\<not> Sidebar_canMakeChanges pg" by (auto simp: read_only_def Sidebar_canMakeChanges_def)
  moreover have "\<not> edits_selected (tile_onClick p st)" for p st
    by (simp add: tile_onClick_def edits_selected_def)
  ultimately show ?thesis
    using assms True
    by (cases e) (auto simp: no_edit_def no_edit_element_def bucket_field_def list_all_iff edits_selected_def
        read_only_def)
qed

interpretation permission: page_invariant no_edit no_edit_element
  by unfold_locales (rule element_needs_enough [OF no_edit_needs])

lemma read_only_handlers:
  assumes "read_only pg" "h \<in> set (page_handlers pg l)"
  shows "\<not> edits_selected h"
proof -
  have "list_all (no_edit pg) (page_handlers pg l)"
    by (rule permission.page_handlers_ok, rule node_ok_QuotaService) (simp_all add: no_edit_element_def)
  then show ?thesis using assms by (auto simp: list_all_iff no_edit_def)
qed


lemma sample_page_renders: "H_select_none \<in> set (page_handlers (sample_page False False) sample_locals)"
  unfolding page_handlers_def render_page_def depth_Suc
    by (simp add: sample_page_def SelectedNamespace_render_def Namespace_render_def Let_def
        renderBucket_def im_prop_def immutable_names_def inherited_def object_prototype_def
        NamespaceHeader_render_def get_prop_def bucket_values_def object_keys_def array_index_def
        digit_of_def Bucket_render_def bucket_field_def bucket_fields_def Field_render_def
        INITIAL_STATS_def QuotaService_render_def Sidebar_render_def renderVersion_def
        renderSpecialBucketButtons_def Sidebar_canMakeChanges_def renderAddNamespace_def renderAddBucket_def
        Sidebar_renderError_def renderChanges_def renderConfigs_def Namespaces_render_def isLoading_def
        initial_root_def INITIAL_HISTORY_def INITIAL_CONFIGS_def sample_locals_def AddField_render_def
        Changes_render_def renderChanges_list_def Configs_render_def no_history_def sidebar_initial_def attr_handlers_def cls_def
        to_str.simps show_int_def show_nat.simps digit_char_def)


end
