(* ===== verification/Prop_Types.thy ===== *)
theory Prop_Types
  imports Page_Invariants
begin

text \<open>
  The declarations \<open>propTypes\<close> of the components, read as types: a declared property of an element
  has a value of the declared type, or none where the property is not required. Each declaration is
  a list of names, types and whether a value is required, as in the source; \<open>element_props\<close> are
  the properties that the rendering component passes.
\<close>

section \<open>Types of properties\<close>

datatype prop_type = PT_any | PT_string | PT_number | PT_bool | PT_object | PT_func

fun of_prop_type :: "prop_type \<Rightarrow> jsval \<Rightarrow> bool" where
  "of_prop_type PT_any v = True"
| "of_prop_type PT_string v = (case v of JStr _ \<Rightarrow> True | _ \<Rightarrow> False)"
| "of_prop_type PT_number v = (case v of JNum _ \<Rightarrow> True | _ \<Rightarrow> False)"
| "of_prop_type PT_bool v = (case v of JBool _ \<Rightarrow> True | _ \<Rightarrow> False)"
| "of_prop_type PT_object v = (case v of JObj _ \<Rightarrow> True | _ \<Rightarrow> False)"
| "of_prop_type PT_func v = (case v of JFun _ \<Rightarrow> True | _ \<Rightarrow> False)"

type_synonym prop_types = "(string \<times> prop_type \<times> bool) list"

definition prop_ok :: "props \<Rightarrow> string \<times> prop_type \<times> bool \<Rightarrow> bool" where
  "prop_ok ps = (\<lambda>(name, ty, required).
     let v = (case map_of ps name of Some v \<Rightarrow> v | None \<Rightarrow> JUndef) in
     if nullish v then \<not> required else of_prop_type ty v)"

section \<open>The declarations\<close>

definition AddField_propTypes :: prop_types where
  "AddField_propTypes =
     [(''placeholder'', PT_string, True), (''value'', PT_string, True), (''submitText'', PT_string, True),
      (''handleChange'', PT_func, True), (''handleSubmit'', PT_func, True)]"

definition Change_propTypes :: prop_types where
  "Change_propTypes = [(''className'', PT_string, True), (''change'', PT_object, True)]"

definition Config_propTypes :: prop_types where
  "Config_propTypes = [(''config'', PT_object, True), (''handleClick'', PT_func, True)]"

definition Confirmation_propTypes :: prop_types where
  "Confirmation_propTypes =
     [(''header'', PT_string, True), (''action'', PT_object, True), (''dispatch'', PT_func, True),
      (''cancel'', PT_func, True), (''body'', PT_object, False)]"

definition Error_propTypes :: prop_types where
  "Error_propTypes = [(''error'', PT_object, True)]"

definition Field_propTypes :: prop_types where
  "Field_propTypes =
     [(''disabled'', PT_bool, False), (''value'', PT_any, False), (''handleChange'', PT_func, True),
      (''placeholder'', PT_string, False), (''keyName'', PT_string, True), (''parent'', PT_string, True),
      (''title'', PT_string, False)]"

definition NamespaceHeader_propTypes :: prop_types where
  "NamespaceHeader_propTypes =
     [(''canMakeChanges'', PT_bool, False), (''namespace'', PT_object, True),
      (''removeNamespace'', PT_func, True), (''handleBack'', PT_func, True)]"

definition Bucket_propTypes :: prop_types where
  "Bucket_propTypes =
     [(''canMakeChanges'', PT_bool, False), (''bucket'', PT_object, True),
      (''showDynamicStats'', PT_bool, True), (''handleRemove'', PT_func, True),
      (''handleChange'', PT_func, True), (''handleShowDynamicStats'', PT_func, True)]"

definition Changes_propTypes :: prop_types where
  "Changes_propTypes =
     [(''changes'', PT_object, True), (''handleUndo'', PT_func, True), (''handleRedo'', PT_func, True),
      (''handleCommit'', PT_func, True), (''handleRefresh'', PT_func, True)]"

definition Configs_propTypes :: prop_types where
  "Configs_propTypes = [(''configs'', PT_object, True), (''loadConfig'', PT_func, True)]"

definition Namespace_propTypes :: prop_types where
  "Namespace_propTypes =
     [(''canMakeChanges'', PT_bool, True), (''namespace'', PT_object, True),
      (''selectNamespace'', PT_func, True), (''updateNamespace'', PT_func, True),
      (''removeNamespace'', PT_func, True), (''updateBucket'', PT_func, True),
      (''removeBucket'', PT_func, True), (''toggleStats'', PT_func, True)]"

definition NamespaceTile_propTypes :: prop_types where
  "NamespaceTile_propTypes =
     [(''isSelected'', PT_bool, True), (''namespace'', PT_object, True), (''capabilities'', PT_object, True),
      (''eventEmitter'', PT_object, True), (''capabilitiesEnabled'', PT_bool, True),
      (''selectNamespace'', PT_func, True)]"

definition Namespaces_propTypes :: prop_types where
  "Namespaces_propTypes =
     [(''actions'', PT_object, True), (''namespaces'', PT_object, True), (''env'', PT_object, True),
      (''capabilities'', PT_object, True), (''selectedNamespace'', PT_object, False)]"

definition SelectedNamespace_propTypes :: prop_types where
  "SelectedNamespace_propTypes =
     [(''actions'', PT_object, True), (''stats'', PT_object, True), (''selectedNamespace'', PT_object, False)]"

definition Stats_propTypes :: prop_types where
  "Stats_propTypes =
     [(''namespace'', PT_object, True), (''stats'', PT_object, True), (''toggleStats'', PT_func, True),
      (''removeNamespace'', PT_func, True), (''fetchStats'', PT_func, True)]"

definition Sidebar_propTypes :: prop_types where
  "Sidebar_propTypes =
     [(''actions'', PT_object, True), (''namespaces'', PT_object, True), (''configs'', PT_object, True),
      (''selectedNamespace'', PT_object, False), (''currentVersion'', PT_number, True),
      (''handleRefresh'', PT_func, True), (''env'', PT_object, True)]"

definition QuotaService_propTypes :: prop_types where
  "QuotaService_propTypes =
     [(''dispatch'', PT_func, True), (''actions'', PT_object, True), (''namespaces'', PT_object, True),
      (''stats'', PT_object, True), (''configs'', PT_object, True), (''capabilities'', PT_object, True),
      (''selectedNamespace'', PT_object, False), (''currentVersion'', PT_number, True),
      (''env'', PT_object, True), (''confirm'', PT_object, False)]"

section \<open>The properties of an element\<close>

text \<open>
  A slice of the state, the bound actions and the environment are objects whatever they hold; a
  handler is a function.
\<close>

definition some_object :: jsval where
  "some_object = JObj []"

definition some_function :: jsval where
  "some_function = JFun ''handler''"

definition flag :: "bool option \<Rightarrow> jsval" where
  "flag b = (case b of None \<Rightarrow> JUndef | Some b \<Rightarrow> JBool b)"

text \<open>What \<open>Root\<close> passes to \<open>QuotaService\<close>, which passes it on.\<close>

definition page_props :: "page \<Rightarrow> props" where
  "page_props pg =
     [(''dispatch'', some_function), (''actions'', some_object), (''namespaces'', some_object),
      (''stats'', some_object), (''configs'', some_object),
      (''capabilities'', JObj (rt_capabilities (p_state pg))),
      (''selectedNamespace'', case p_selected pg of None \<Rightarrow> JNull | Some _ \<Rightarrow> some_object),
      (''currentVersion'', rt_currentVersion (p_state pg)), (''env'', some_object),
      (''confirm'', case rt_confirm (p_state pg) of None \<Rightarrow> JNull | Some _ \<Rightarrow> some_object)]"

fun element_props :: "page \<Rightarrow> element \<Rightarrow> props" where
  "element_props pg (E_AddField v ph t hc hs) =
     [(''value'', JStr v), (''handleChange'', some_function), (''placeholder'', JStr ph),
      (''submitText'', JStr t), (''handleSubmit'', some_function)]"
| "element_props pg (E_Change c ch) =
     [(''className'', JStr c), (''change'', case ch of None \<Rightarrow> JUndef | Some c \<Rightarrow> change_object c)]"
| "element_props pg (E_Changes h) =
     [(''handleUndo'', some_function), (''handleRedo'', some_function), (''handleRefresh'', some_function),
      (''handleCommit'', some_function), (''changes'', some_object)]"
| "element_props pg (E_Config c h) = [(''config'', c), (''handleClick'', some_function)]"
| "element_props pg (E_Configs its) = [(''configs'', some_object), (''loadConfig'', some_function)]"
| "element_props pg (E_Error e) = [(''error'', e)]"
| "element_props pg (E_Field p) =
     [(''keyName'', JStr (fp_keyName p)), (''parent'', fp_parent p), (''disabled'', JBool (fp_disabled p)),
      (''value'', fp_value p), (''handleChange'', some_function), (''title'', JStr (fp_title p)),
      (''placeholder'', case fp_placeholder p of None \<Rightarrow> JUndef | Some t \<Rightarrow> JStr t)]"
| "element_props pg (E_Bucket p) =
     [(''bucket'', bp_bucket p), (''canMakeChanges'', flag (bp_canMakeChanges p)),
      (''showDynamicStats'', JBool (bp_showDynamicStats p)), (''handleChange'', some_function),
      (''handleRemove'', some_function), (''handleShowDynamicStats'', some_function)]"
| "element_props pg (E_NamespaceHeader ns can h) =
     [(''namespace'', ns), (''canMakeChanges'', flag can), (''handleBack'', some_function),
      (''removeNamespace'', some_function)]"
| "element_props pg (E_NamespaceTile k p) =
     [(''capabilities'', JObj (tp_capabilities p)), (''capabilitiesEnabled'', JBool (tp_capabilitiesEnabled p)),
      (''eventEmitter'', some_object), (''isSelected'', JBool (tp_isSelected p)),
      (''namespace'', tp_namespace p), (''selectNamespace'', some_function)]"
| "element_props pg (E_Namespace ns can) =
     [(''namespace'', ns), (''canMakeChanges'', JBool can), (''selectNamespace'', some_function),
      (''updateNamespace'', some_function), (''removeNamespace'', some_function),
      (''updateBucket'', some_function), (''removeBucket'', some_function), (''toggleStats'', some_function)]"
| "element_props pg (E_Stats ns) =
     [(''namespace'', ns), (''stats'', some_object), (''toggleStats'', some_function),
      (''removeNamespace'', some_function), (''fetchStats'', some_function)]"
| "element_props pg E_Sidebar = page_props pg @ [(''handleRefresh'', some_function)]"
| "element_props pg E_Namespaces = page_props pg"
| "element_props pg E_SelectedNamespace = page_props pg"
| "element_props pg (E_Confirmation d h b) =
     [(''cancel'', some_function), (''dispatch'', some_function), (''action'', some_object),
      (''header'', JStr h), (''body'', case b of None \<Rightarrow> JUndef | Some _ \<Rightarrow> some_object)]"

fun element_types :: "element \<Rightarrow> prop_types" where
  "element_types (E_AddField _ _ _ _ _) = AddField_propTypes"
| "element_types (E_Change _ _) = Change_propTypes"
| "element_types (E_Changes _) = Changes_propTypes"
| "element_types (E_Config _ _) = Config_propTypes"
| "element_types (E_Configs _) = Configs_propTypes"
| "element_types (E_Error _) = Error_propTypes"
| "element_types (E_Field _) = Field_propTypes"
| "element_types (E_Bucket _) = Bucket_propTypes"
| "element_types (E_NamespaceHeader _ _ _) = NamespaceHeader_propTypes"
| "element_types (E_NamespaceTile _ _) = NamespaceTile_propTypes"
| "element_types (E_Namespace _ _) = Namespace_propTypes"
| "element_types (E_Stats _) = Stats_propTypes"
| "element_types E_Sidebar = Sidebar_propTypes"
| "element_types E_Namespaces = Namespaces_propTypes"
| "element_types E_SelectedNamespace = SelectedNamespace_propTypes"
| "element_types (E_Confirmation _ _ _) = Confirmation_propTypes"

definition well_typed :: "page \<Rightarrow> element \<Rightarrow> bool" where
  "well_typed pg e = list_all (prop_ok (element_props pg e)) (element_types e)"

section \<open>States whose values have the expected types\<close>

definition named :: "jsval \<Rightarrow> bool" where
  "named v \<longleftrightarrow> is_obj v \<and> (case im_prop v ''name'' of JStr _ \<Rightarrow> True | _ \<Rightarrow> False)"

definition namespace_typed :: "jsval \<Rightarrow> bool" where
  "namespace_typed ns \<longleftrightarrow> named ns \<and>
     list_all (\<lambda>b. truthy b \<longrightarrow> named b)
       (im_prop ns ''dynamic_bucket_template'' # im_prop ns ''default_bucket''
        # bucket_values (im_prop ns ''buckets''))"

definition configs_typed :: "jsval \<Rightarrow> bool" where
  "configs_typed its = (case its of JArr cs \<Rightarrow> list_all is_obj cs | _ \<Rightarrow> True)"

definition error_typed :: "jsval \<Rightarrow> bool" where
  "error_typed e \<longleftrightarrow> truthy e \<longrightarrow> is_obj e"

definition changes_typed :: "history \<Rightarrow> bool" where
  "changes_typed h \<longleftrightarrow> list_all (\<lambda>e. e_change e \<noteq> None) (past h @ future h)"

definition page_typed :: "page \<Rightarrow> bool" where
  "page_typed pg \<longleftrightarrow>
     (case p_selected pg of None \<Rightarrow> True | Some sel \<Rightarrow> namespace_typed (s_namespace sel)) \<and>
     list_all (\<lambda>k. is_obj (im_prop (items (cur (rt_namespaces (p_state pg)))) k))
       (object_keys (own_props (items (cur (rt_namespaces (p_state pg)))))) \<and>
     changes_typed (hist (rt_namespaces (p_state pg))) \<and>
     configs_typed (cf_items (rt_configs (p_state pg))) \<and>
     error_typed (cf_error (rt_configs (p_state pg))) \<and> error_typed (st_error (rt_stats (p_state pg))) \<and>
     of_prop_type PT_number (rt_currentVersion (p_state pg))"

text \<open>The types of an element, and of the parts it passes on.\<close>

definition element_typed :: "page \<Rightarrow> element \<Rightarrow> bool" where
  "element_typed pg e \<longleftrightarrow> page_typed pg \<longrightarrow> well_typed pg e \<and>
     (case e of
        E_Namespace ns _ \<Rightarrow> namespace_typed ns
      | E_Bucket p \<Rightarrow> named (bp_bucket p)
      | E_Changes h \<Rightarrow> changes_typed h
      | E_Configs its \<Rightarrow> configs_typed its
      | E_Stats ns \<Rightarrow> is_obj ns
      | _ \<Rightarrow> True)"

section \<open>Every element is well typed\<close>

lemma is_obj_object: "is_obj v \<Longrightarrow> of_prop_type PT_object v \<and> \<not> nullish v"
  by (cases v) auto

lemmas prop_simps = prop_ok_def some_object_def some_function_def flag_def page_props_def change_object_def
  AddField_propTypes_def Change_propTypes_def Config_propTypes_def Confirmation_propTypes_def
  Error_propTypes_def Field_propTypes_def NamespaceHeader_propTypes_def Bucket_propTypes_def
  Changes_propTypes_def Configs_propTypes_def Namespace_propTypes_def NamespaceTile_propTypes_def
  Namespaces_propTypes_def SelectedNamespace_propTypes_def Stats_propTypes_def Sidebar_propTypes_def
  QuotaService_propTypes_def

lemma well_typed_plain:
  "well_typed pg (E_AddField v ph t hc hs)" "well_typed pg (E_Changes h)" "well_typed pg (E_Configs its)"
  "well_typed pg E_Namespaces" "well_typed pg E_SelectedNamespace" "well_typed pg (E_Confirmation d header b)"
  by (auto simp: well_typed_def prop_simps split: option.split)

lemma well_typed_objects:
  "is_obj v \<Longrightarrow> well_typed pg (E_Config v h)" "is_obj v \<Longrightarrow> well_typed pg (E_Error v)"
  "is_obj v \<Longrightarrow> well_typed pg (E_NamespaceHeader v can h)" "is_obj v \<Longrightarrow> well_typed pg (E_Namespace v c)"
  "is_obj v \<Longrightarrow> well_typed pg (E_Stats v)"
  using is_obj_object [of v] by (auto simp: well_typed_def prop_simps split: option.split)

lemma well_typed_others:
  "is_obj (bp_bucket p) \<Longrightarrow> well_typed pg (E_Bucket p)"
  "is_obj (tp_namespace q) \<Longrightarrow> well_typed pg (E_NamespaceTile k q)"
  "ch \<noteq> None \<Longrightarrow> well_typed pg (E_Change c ch)"
  "fp_parent f = JStr s \<Longrightarrow> well_typed pg (E_Field f)"
  "page_typed pg \<Longrightarrow> well_typed pg E_Sidebar"
proof -
  show "is_obj (bp_bucket p) \<Longrightarrow> well_typed pg (E_Bucket p)"
    using is_obj_object [of "bp_bucket p"] by (auto simp: well_typed_def prop_simps split: option.split)
  show "is_obj (tp_namespace q) \<Longrightarrow> well_typed pg (E_NamespaceTile k q)"
    using is_obj_object [of "tp_namespace q"] by (auto simp: well_typed_def prop_simps)
  show "ch \<noteq> None \<Longrightarrow> well_typed pg (E_Change c ch)"
    by (auto simp: well_typed_def prop_simps)
  show "fp_parent f = JStr s \<Longrightarrow> well_typed pg (E_Field f)"
    by (auto simp: well_typed_def prop_simps split: option.split)
  show "page_typed pg \<Longrightarrow> well_typed pg E_Sidebar"
    by (cases "rt_currentVersion (p_state pg)")
       (auto simp: well_typed_def prop_simps page_typed_def split: option.split)
qed

lemma typed_needs:
  assumes "element_typed pg e"
  shows "element_needs pg (\<lambda>h. True) (element_typed pg) l e"
proof (cases "page_typed pg")
  case False
  then show ?thesis
    by (cases e) (auto simp: element_typed_def list_all_iff bucket_field_def)
next
  case True
  then have sel: "p_selected pg = Some sel \<Longrightarrow> namespace_typed (s_namespace sel)" for sel
    by (simp add: page_typed_def)
  have obj: "namespace_typed ns \<Longrightarrow> is_obj ns" for ns by (simp add: namespace_typed_def named_def)
  show ?thesis
  proof (cases e)
    case (E_Bucket p)
    then have "named (bp_bucket p)" using assms True by (simp add: element_typed_def)
    then obtain s where "im_prop (bp_bucket p) ''name'' = JStr s"
      by (auto simp: named_def split: jsval.splits)
    then show ?thesis
      using E_Bucket by (auto simp: element_typed_def bucket_field_def list_all_iff intro!: well_typed_others(4))
  next
    case (E_Namespace ns can)
    then have ns: "namespace_typed ns" using assms True by (simp add: element_typed_def)
    then obtain s where "im_prop ns ''name'' = JStr s"
      by (auto simp: namespace_typed_def named_def split: jsval.splits)
    then show ?thesis
      using E_Namespace ns
      by (auto simp: element_typed_def namespace_typed_def named_def list_all_iff
          intro!: well_typed_others well_typed_objects)
  next
    case E_Namespaces
    then show ?thesis
      using True by (auto simp: element_typed_def page_typed_def list_all_iff intro!: well_typed_others(2))
  next
    case E_SelectedNamespace
    then show ?thesis
      using sel obj by (auto simp: element_typed_def intro!: well_typed_objects)
  qed (use assms True in \<open>auto simp: element_typed_def page_typed_def changes_typed_def configs_typed_def
      error_typed_def list_all_iff well_typed_plain well_typed_objects well_typed_others\<close>)
qed

interpretation typing: page_invariant "\<lambda>pg h. True" element_typed
  by unfold_locales (rule element_needs_enough [OF typed_needs])

section \<open>Properties\<close>



end
