(* ===== verification/Application.thy ===== *)
theory Application
  imports Page_Invariants Page_Editing "HOL-Library.Code_Target_Nat"
begin

text \<open>
  The running application: the store with its waiting tasks, the local states of the components that
  are mounted, and the timers and questions they have started. \<open>perform\<close> is one event: the user
  triggers an element that the page offers, a timer fires, the capabilities hook answers a tile, or a
  request is answered. After each event the page gets its new properties and is rendered (\<open>settle\<close>).

  The page is rendered once per event; a page that cannot be rendered is taken down by React, which
  ends the run.
\<close>

section \<open>State\<close>

record app =
  a_world :: world
  a_locals :: locals
  a_timers :: "(jsval \<times> string) list"
    \<comment> \<open>search timers whose statistics view is gone: nothing clears them\<close>
  a_tiles :: "string list"
    \<comment> \<open>the keys of the tiles that are mounted\<close>
  a_asking :: "string list"
    \<comment> \<open>those of them that wait for the answer of the capabilities hook\<close>
  a_mounted :: bool

abbreviation app_state :: "app \<Rightarrow> root_state" where
  "app_state a \<equiv> store (a_world a)"

definition app_page :: "environment \<Rightarrow> app \<Rightarrow> page" where
  "app_page env a = Root_mapState env (app_state a)"

definition offered :: "environment \<Rightarrow> app \<Rightarrow> handler list" where
  "offered env a = (if a_mounted a then page_handlers (app_page env a) (a_locals a) else [])"

datatype ui_event =
    Click handler
    \<comment> \<open>a click on an element, or the submission of a form\<close>
  | Type_in handler string
    \<comment> \<open>a new text in an input element\<close>
  | Search_timer
  | Lost_timer nat
  | Tile_answer string jsval
  | Answered nat answer

section \<open>Rendering after an event\<close>

definition shown_tiles :: "page \<Rightarrow> locals \<Rightarrow> (string \<times> tile_props) list" where
  "shown_tiles pg l =
     concat (map (\<lambda>e. case e of E_NamespaceTile k p \<Rightarrow> [(k, p)] | _ \<Rightarrow> []) (page_elements pg l))"

definition shows_stats :: "page \<Rightarrow> locals \<Rightarrow> bool" where
  "shows_stats pg l = list_ex (\<lambda>e. case e of E_Stats _ \<Rightarrow> True | _ \<Rightarrow> False) (page_elements pg l)"

text \<open>
  The local states after rendering: a component that is no longer on the page loses its state, one
  that appears starts with the initial one; a tile that appears asks for its permission.
\<close>

definition mount :: "page \<Rightarrow> app \<Rightarrow> app" where
  "mount pg a =
     (let l = a_locals a;
          tiles = shown_tiles pg l;
          stays = (\<lambda>k. k \<in> set (a_tiles a) \<and> k \<in> set (map fst tiles));
          stats = shows_stats pg l
      in a\<lparr> a_locals := l\<lparr> l_stats := (if stats then l_stats l else stats_view_initial),
                            l_tile := (\<lambda>k. if stays k then l_tile l k else tile_initial) \<rparr>,
            a_timers := a_timers a @ (if stats then [] else
                          (case sv_searchTimer (l_stats l) of None \<Rightarrow> [] | Some t \<Rightarrow> [t])),
            a_tiles := map fst tiles,
            a_asking := filter stays (a_asking a)
                        @ map fst (filter (\<lambda>(k, p). \<not> stays k \<and> tile_willMount p tile_initial \<noteq> None)
                                     tiles) \<rparr>)"

definition settle :: "environment \<Rightarrow> app \<Rightarrow> app" where
  "settle env a =
     (let a1 = a\<lparr> a_world := willReceiveProps env (a_world a) \<rparr>;
          pg = app_page env a1;
          a2 = mount pg a1
      in a2\<lparr> a_mounted := (case render_page pg (a_locals a2) of Inl e \<Rightarrow> False | Inr ds \<Rightarrow> True) \<rparr>)"

text \<open>The page is mounted and loads the configurations.\<close>

definition app_start :: "environment \<Rightarrow> app" where
  "app_start env =
     settle env
       \<lparr> a_world = fetchData env initial_world,
         a_locals = \<lparr> l_sidebar = sidebar_initial, l_stats = stats_view_initial,
                      l_tile = (\<lambda>k. tile_initial) \<rparr>,
         a_timers = [], a_tiles = [], a_asking = [], a_mounted = True \<rparr>"

section \<open>Events\<close>

definition dispatch_thunk :: "app \<Rightarrow> thunk option \<Rightarrow> app" where
  "dispatch_thunk a t =
     (case t of None \<Rightarrow> a | Some u \<Rightarrow> a\<lparr> a_world := handle_event (a_world a) (Thk u) \<rparr>)"

definition set_sidebar :: "app \<Rightarrow> sidebar_state \<Rightarrow> app" where
  "set_sidebar a st = a\<lparr> a_locals := (a_locals a)\<lparr> l_sidebar := st \<rparr> \<rparr>"

definition set_stats_view :: "app \<Rightarrow> stats_view \<Rightarrow> app" where
  "set_stats_view a st = a\<lparr> a_locals := (a_locals a)\<lparr> l_stats := st \<rparr> \<rparr>"

text \<open>
  A click. \<open>None\<close>: the handler reads a name that is no string (see \<open>handler_item\<close>, \<open>handleAddBucket\<close>)
  or belongs to an input element.
\<close>

definition click :: "environment \<Rightarrow> app \<Rightarrow> handler \<Rightarrow> app option" where
  "click env a h =
     (case h of
        H_add_namespace \<Rightarrow>
          (case handleAddNamespace (l_sidebar (a_locals a)) of
             (st, t) \<Rightarrow> Some (dispatch_thunk (set_sidebar a st) t))
      | H_add_bucket b \<Rightarrow>
          (case handleAddBucket (app_page env a) b (l_sidebar (a_locals a)) of
             (st, Inl e) \<Rightarrow> None
           | (st, Inr t) \<Rightarrow> Some (dispatch_thunk (set_sidebar a st) t))
      | _ \<Rightarrow>
          if h = H_refresh \<or> handler_item (app_page env a) h \<noteq> None
          then Some (a\<lparr> a_world := trigger_handler env (a_world a) h \<rparr>)
          else None)"

definition type_in :: "environment \<Rightarrow> app \<Rightarrow> handler \<Rightarrow> string \<Rightarrow> app option" where
  "type_in env a h s =
     (case h of
        H_field_input p \<Rightarrow> Some (dispatch_thunk a (snd (field_handleChange (mounted_field p) s)))
      | H_set_text k \<Rightarrow> Some (set_sidebar a (Sidebar_handleChange k s (l_sidebar (a_locals a))))
      | H_search \<Rightarrow>
          map_option (\<lambda>sel. set_stats_view a
            (handleSearchChange (s_namespace sel) (l_stats (a_locals a)) s))
            (p_selected (app_page env a))
      | _ \<Rightarrow> None)"

definition nth_out :: "nat \<Rightarrow> 'a list \<Rightarrow> 'a list" where
  "nth_out n xs = take n xs @ drop (Suc n) xs"

text \<open>What an event does before the page is rendered again.\<close>

fun event :: "environment \<Rightarrow> app \<Rightarrow> ui_event \<Rightarrow> app option" where
  "event env a (Click h) = (if h \<in> set (offered env a) then click env a h else None)"
| "event env a (Type_in h s) = (if h \<in> set (offered env a) then type_in env a h s else None)"
| "event env a Search_timer =
     (case searchStats (l_stats (a_locals a)) of
        (st, None) \<Rightarrow> None
      | (st, Some t) \<Rightarrow> Some (dispatch_thunk (set_stats_view a st) (Some t)))"
| "event env a (Lost_timer i) =
     (if i < length (a_timers a)
      then (case a_timers a ! i of (n, b) \<Rightarrow>
              Some (dispatch_thunk (a\<lparr> a_timers := nth_out i (a_timers a) \<rparr>)
                      (Some (fetchStats_thunk (to_str n) (Some b)))))
      else None)"
| "event env a (Tile_answer k v) =
     (if k \<in> set (a_asking a)
      then Some (a\<lparr> a_locals := (a_locals a)\<lparr> l_tile := (l_tile (a_locals a))
                                   (k := tile_callback v (l_tile (a_locals a) k)) \<rparr> \<rparr>)
      else None)"
| "event env a (Answered n ans) =
     (if n < length (pending (a_world a)) \<and> answers (pending (a_world a) ! n) ans
      then Some (a\<lparr> a_world := deliver ((a_world a)\<lparr> pending := nth_out n (pending (a_world a)) \<rparr>)
                                  (pending (a_world a) ! n) ans \<rparr>)
      else None)"

definition perform :: "environment \<Rightarrow> app \<Rightarrow> ui_event \<Rightarrow> app option" where
  "perform env a e = (if a_mounted a then map_option (settle env) (event env a e) else None)"

inductive app_reachable :: "environment \<Rightarrow> app \<Rightarrow> bool" for env where
  app_starts: "app_reachable env (app_start env)"
| app_event: "app_reachable env a \<Longrightarrow> perform env a e = Some a' \<Longrightarrow> app_reachable env a'"

text \<open>A session: events one after the other.\<close>

fun run_app :: "environment \<Rightarrow> app \<Rightarrow> ui_event list \<Rightarrow> app option" where
  "run_app env a [] = Some a"
| "run_app env a (e # es) = Option.bind (perform env a e) (\<lambda>a'. run_app env a' es)"

lemma run_app_reachable: "app_reachable env a \<Longrightarrow> run_app env a es = Some a' \<Longrightarrow> app_reachable env a'"
  by (induction es arbitrary: a) (auto simp: bind_eq_Some_conv intro: app_reachable.app_event)

section \<open>What an event sends to the store\<close>

text \<open>The item that an event dispatches, if it dispatches one.\<close>

fun sent :: "environment \<Rightarrow> app \<Rightarrow> ui_event \<Rightarrow> item option" where
  "sent env a (Click h) =
     (case h of
        H_add_namespace \<Rightarrow> map_option Thk (snd (handleAddNamespace (l_sidebar (a_locals a))))
      | H_add_bucket b \<Rightarrow>
          (case snd (handleAddBucket (app_page env a) b (l_sidebar (a_locals a))) of
             Inl e \<Rightarrow> None
           | Inr t \<Rightarrow> map_option Thk t)
      | _ \<Rightarrow> handler_item (app_page env a) h)"
| "sent env a (Type_in h s) =
     (case h of
        H_field_input p \<Rightarrow> map_option Thk (snd (field_handleChange (mounted_field p) s))
      | _ \<Rightarrow> None)"
| "sent env a Search_timer = map_option Thk (snd (searchStats (l_stats (a_locals a))))"
| "sent env a (Lost_timer i) =
     Some (Thk (fetchStats_thunk (to_str (fst (a_timers a ! i))) (Some (snd (a_timers a ! i)))))"
| "sent env a (Tile_answer k v) = None"
| "sent env a (Answered n ans) = None"

lemma a_world_updates [simp]:
  "a_world (set_sidebar a sb) = a_world a" "a_world (set_stats_view a sv) = a_world a"
  "a_world (dispatch_thunk a t) = (case t of None \<Rightarrow> a_world a | Some u \<Rightarrow> handle_event (a_world a) (Thk u))"
  by (simp_all add: set_sidebar_def set_stats_view_def dispatch_thunk_def split: option.split)

lemma a_world_settle [simp]: "a_world (settle env a) = willReceiveProps env (a_world a)"
  by (simp add: settle_def mount_def Let_def)

lemma handler_item_local [simp]:
  "handler_item pg H_refresh = None" "handler_item pg H_add_namespace = None"
  "handler_item pg (H_add_bucket b) = None" "handler_item pg (H_field_input p) = None"
  by simp_all

lemma trigger_sent:
  "trigger_handler env (a_world a) h =
     (if h = H_refresh then fetchData env (a_world a)
      else case handler_item (app_page env a) h of None \<Rightarrow> a_world a | Some i \<Rightarrow> handle_event (a_world a) i)"
  by (simp add: trigger_handler_def app_page_def)

lemma event_world:
  assumes "event env a e = Some a1"
  shows "a_world a1 =
    (case e of
       Answered n ans \<Rightarrow> deliver ((a_world a)\<lparr> pending := nth_out n (pending (a_world a)) \<rparr>)
                           (pending (a_world a) ! n) ans
     | _ \<Rightarrow> if e = Click H_refresh then fetchData env (a_world a)
           else case sent env a e of None \<Rightarrow> a_world a | Some i \<Rightarrow> handle_event (a_world a) i)"
proof (cases e)
  case (Click h)
  then have "click env a h = Some a1" using assms by (simp split: if_splits)
  then show ?thesis
    using Click by (cases h)
      (auto simp: click_def trigger_sent split: if_splits prod.splits sum.splits option.splits)
next
  case (Type_in h s)
  then have "type_in env a h s = Some a1" using assms by (simp split: if_splits)
  then show ?thesis using Type_in by (cases h) (auto simp: type_in_def split: option.splits)
qed (use assms in \<open>auto split: if_splits prod.splits option.splits\<close>)

text \<open>Except for the dialog, the page only sends the thunks of the action creators.\<close>

lemma handler_item_ui:
  "handler_item pg h = Some i \<Longrightarrow> (\<exists>d. h = H_confirm d \<and> i = item_of d) \<or> (\<exists>t. i = Thk t \<and> ui_thunk t)"
  by (cases "(pg, h)" rule: handler_item.cases) (auto simp: creators_ui_thunk handleCommit_def)

lemma handleAddBucket_thunk:
  assumes "snd (handleAddBucket pg b st) = Inr (Some t)"
  shows "\<exists>n name. t = addBucket_thunk n name"
proof -
  obtain name where "(case p_selected pg of None \<Rightarrow> Inl (TypeError ''Cannot read property namespace'')
      | Some sel \<Rightarrow> and_then (get_prop (s_namespace sel) ''name'') (\<lambda>n. case n of
          JStr ns \<Rightarrow> Inr (Some (addBucket_thunk ns name))
        | _ \<Rightarrow> Inl (OutsideModel ''a namespace without a name''))) = Inr (Some t)"
    using assms by (auto simp: handleAddBucket_def Let_def split: option.splits if_splits)
  then obtain sel n where "and_then (Inr n) (\<lambda>n. case n of JStr ns \<Rightarrow> Inr (Some (addBucket_thunk ns name))
      | _ \<Rightarrow> Inl (OutsideModel ''a namespace without a name'')) = Inr (Some t)"
    by (auto simp: and_then_eq_Inr split: option.splits)
  then show ?thesis by (cases n) auto
qed

lemma sent_ui:
  assumes "sent env a e = Some i"
  shows "(\<exists>d. e = Click (H_confirm d) \<and> i = item_of d) \<or> (\<exists>t. i = Thk t \<and> ui_thunk t)"
proof (cases e)
  case (Click h)
  then show ?thesis
    using assms handler_item_ui [of "app_page env a" h i]
    by (cases h) (auto simp: handleAddNamespace_def creators_ui_thunk split: if_splits sum.splits
        dest!: handleAddBucket_thunk)
next
  case (Type_in h s)
  have "ui_thunk (field_call tgt v)" for tgt v by (cases tgt) (simp_all add: creators_ui_thunk)
  then show ?thesis
    using assms Type_in by (cases h) (auto simp: field_handleChange_def Let_def split: if_splits option.splits)
next
  case Search_timer
  then show ?thesis using assms by (auto simp: searchStats_def creators_ui_thunk split: option.splits)
qed (use assms in \<open>auto simp: creators_ui_thunk\<close>)

lemma nth_out_split:
  "n < length xs \<Longrightarrow> \<exists>ys zs. xs = ys @ (xs ! n) # zs \<and> nth_out n xs = ys @ zs"
  using id_take_nth_drop [of n xs] by (auto simp: nth_out_def)

section \<open>Runs of the application are runs of the store\<close>

lemma event_step:
  assumes "event env a e = Some a1"
  shows "a_world a1 = a_world a \<or> world_step (a_world a) (a_world a1)"
proof (cases "\<exists>n ans. e = Answered n ans")
  case True
  then obtain n ans where e: "e = Answered n ans" by blast
  with assms have n: "n < length (pending (a_world a))" "answers (pending (a_world a) ! n) ans"
    by (auto split: if_splits)
  obtain ys zs where "pending (a_world a) = ys @ (pending (a_world a) ! n) # zs"
    "nth_out n (pending (a_world a)) = ys @ zs"
    using nth_out_split [OF n(1)] by blast
  then show ?thesis
    using world_step.answered [of "a_world a" ys _ zs ans] n(2) event_world [OF assms] e by simp
next
  case False
  then have w: "a_world a1 = (if e = Click H_refresh then fetchData env (a_world a)
      else case sent env a e of None \<Rightarrow> a_world a | Some i \<Rightarrow> handle_event (a_world a) i)"
    using event_world [OF assms] by (cases e) auto
  show ?thesis
  proof (cases "sent env a e")
    case None
    then show ?thesis using w by (auto simp: fetchData_def intro: world_step.fetch_data)
  next
    case (Some i)
    then have wi: "a_world a1 = handle_event (a_world a) i" using w by auto
    consider d where "e = Click (H_confirm d)" "i = item_of d" | t where "i = Thk t" "ui_thunk t"
      using sent_ui [OF Some] by blast
    then show ?thesis
    proof cases
      case 1
      then have "H_confirm d \<in> set (page_handlers (app_page env a) (a_locals a))"
        using assms by (auto simp: offered_def split: if_splits)
      then obtain h b where "rt_confirm (app_state a) = Some (CONFIRM d h b)"
        using page_confirms_asked by (fastforce simp: app_page_def Root_mapState_def)
      then show ?thesis using wi 1 world_step.confirmed by auto
    next
      case 2
      then show ?thesis using wi world_step.trigger by auto
    qed
  qed
qed

lemma reachable_refetch: "reachable w \<Longrightarrow> reachable (willReceiveProps env w)"
  by (auto simp: willReceiveProps_def fetchData_def intro: reachable.step world_step.fetch_data)

lemma app_reachable_world: "app_reachable env a \<Longrightarrow> reachable (a_world a)"
proof (induction rule: app_reachable.induct)
  case app_starts
  have "reachable (fetchData env initial_world)"
    by (auto simp: fetchData_def intro: reachable.intros world_step.fetch_data)
  then show ?case by (simp add: app_start_def reachable_refetch)
next
  case (app_event a e a')
  then obtain a1 where "event env a e = Some a1" "a' = settle env a1"
    by (auto simp: perform_def split: if_splits)
  then show ?case
    using app_event.IH event_step [of env a e a1] by (auto intro: reachable.step reachable_refetch)
qed

text \<open>
  C6: The page drives the store only in the ways the store is proved for: in every state that the
  running application reaches, through clicks on what the page offers, typing, timers, answers of
  the capabilities hook and of the server in any order, the store with its waiting requests is a
  reachable world; in particular the dialog only ever confirms the question it asks.
\<close>

theorem application_refines_store:
  assumes "app_reachable env a"
  shows "reachable (a_world a) \<and>
         (\<forall>d. H_confirm d \<in> set (offered env a) \<longrightarrow>
            (\<exists>h b. rt_confirm (app_state a) = Some (CONFIRM d h b) \<and> confirmable d))"
proof -
  have r: "reachable (a_world a)" using app_reachable_world [OF assms] .
  then have "confirm_ok (rt_confirm (app_state a))" using reachable_ok by (simp add: world_ok_def)
  moreover have "\<exists>h b. rt_confirm (app_state a) = Some (CONFIRM d h b)"
    if "H_confirm d \<in> set (offered env a)" for d
    using that page_confirms_asked [of d "app_page env a" "a_locals a"]
    by (auto simp: offered_def app_page_def Root_mapState_def split: if_splits)
  ultimately show ?thesis using r by (fastforce simp: confirm_ok_def)
qed

section \<open>The page is never stuck\<close>

lemma settled_no_refetch:
  assumes "app_reachable env a"
  shows "\<not> needs_refetch (app_state a)"
proof -
  have settled: "\<not> needs_refetch (store (willReceiveProps env w))" for w
    using fetchData_configs [of env w] by (simp add: willReceiveProps_def)
  from assms show ?thesis
    by (cases rule: app_reachable.cases) (auto simp: app_start_def perform_def settled split: if_splits)
qed


section \<open>The action an item carries to the store\<close>

fun first_action :: "item \<Rightarrow> action" where
  "first_action (Act a) = a"
| "first_action (Api r) = api_action (fst (types r)) False JUndef"
| "first_action (Thk (Dispatches a)) = a"
| "first_action (Thk (Runs a)) = a"
| "first_action (Thk (Dispatches_api r)) = api_action (fst (types r)) False JUndef"
| "first_action (Thk Toggle_stats) = STATS_TOGGLE"
| "first_action (Thk Fetch_configs) = CONFIGS_REQUEST False JUndef"
| "first_action (Thk (Fetch_capabilities c)) = CAPABILITIES_REQUEST c"

fun ui_item :: "item \<Rightarrow> bool" where
  "ui_item (Act a) = confirmable (Plain a)"
| "ui_item (Api r) = commit_call r"
| "ui_item (Thk t) = ui_thunk t"

lemma run_thunk_store:
  "ui_thunk t \<Longrightarrow> store (fst (run_thunk w t)) = fst (base_dispatch (store w) (first_action (Thk t)))"
proof (cases t)
  case Toggle_stats
  then show ?thesis using toggle_store(1) [of w] by (simp del: run_thunk.simps)
next
  case Fetch_configs
  then show ?thesis by (simp add: fetchConfigs_start_eq base_dispatch_def root_configs_actions)
next
  case (Runs x)
  then show ?thesis using dispatch_action_store(1) [of w x] by (cases "dispatch_action w x") auto
qed (auto simp: dispatch_action_store api_start_store stats_call_def fetchCapabilities_start_store)

lemma handle_event_action:
  "ui_item i \<Longrightarrow> store (handle_event w i) = fst (base_dispatch (store w) (first_action i))"
  by (cases i) (auto simp: handle_event_thunk_store run_thunk_store dispatch_action_store api_start_store
      commit_call_def simp del: run_thunk.simps)

section \<open>The dialog shows the current configuration\<close>

text \<open>
  What the dialog asks about is what it was opened for: a save is for the tree and the version that
  the store holds now, and a removal was asked for by a page that may change the namespace.
\<close>

definition dialog_ok :: "environment \<Rightarrow> root_state \<Rightarrow> bool" where
  "dialog_ok env s =
     (case rt_confirm s of
        Some (CONFIRM (Call_Api r) h b) \<Rightarrow>
          handleCommit (Root_mapState env s) = confirm_thunk (Call_Api r) h b
      | Some (CONFIRM (Plain x) h b) \<Rightarrow> \<not> read_only (Root_mapState env s)
      | _ \<Rightarrow> True)"

text \<open>Anything but a new question leaves the state or closes the dialog.\<close>

definition calm :: "root_state \<Rightarrow> root_state \<Rightarrow> bool" where
  "calm s s' \<longleftrightarrow> s' = s \<or> rt_confirm s' = None"

lemma calm_dialog: "calm s s' \<Longrightarrow> dialog_ok env s \<Longrightarrow> dialog_ok env s'"
  by (auto simp: calm_def dialog_ok_def)

lemma calm_trans: "calm s s' \<Longrightarrow> calm s' s'' \<Longrightarrow> calm s s''"
  by (auto simp: calm_def)

lemma calm_base: "(\<And>d h b. a \<noteq> CONFIRM d h b) \<Longrightarrow> calm s (fst (base_dispatch s a))"
  using rt_confirm_other [of s a] by (auto simp: calm_def base_dispatch_def split: sum.split)

lemma calm_api:
  assumes "api_result r ans = Some x"
  shows "calm s (fst (base_dispatch s x))"
proof (rule calm_base)
  have "\<exists>t err v. x = api_action t err v"
    using assms by (cases ans) (auto split: prod.splits if_splits sum.splits)
  then show "x \<noteq> CONFIRM d h b" for d h b by (auto simp: api_action_def split: if_splits)
qed

lemma calm_configs_finish:
  "answers (Await_configs follow) ans \<Longrightarrow> calm (store w) (store (fst (fetchConfigs_finish w ans)))"
  using fetchConfigs_finish_configs by (simp add: calm_def)

lemma calm_deliver:
  assumes "answers t ans" "task_ok t"
  shows "calm (store w) (store (deliver w t ans))"
proof (cases t)
  case (Await_configs follow)
  obtain w' v where w': "fetchConfigs_finish w ans = (w', v)" by (cases "fetchConfigs_finish w ans")
  then have "calm (store w) (store w')"
    using calm_configs_finish [of follow ans w] assms(1) Await_configs by simp
  moreover have "calm (store w') (store (fetchCapabilities_start w' v))"
    by (simp add: fetchCapabilities_start_store calm_base)
  ultimately show ?thesis using Await_configs w' calm_trans by auto
next
  case (Await_api r)
  then show ?thesis
    using assms(1) api_result_total [of r ans] calm_api [of r ans] by (auto simp: next_async_store)
next
  case Await_capabilities
  then show ?thesis using assms(1) by (cases ans) (auto simp: next_async_store intro: calm_base)
qed (use assms in simp)

lemma calm_fetchData: "calm s (store (fetchData env w))"
  by (simp add: calm_def fetchData_def fetchConfigs_start_eq)

lemma calm_refetch: "calm (store w) (store (willReceiveProps env w))"
  by (simp add: willReceiveProps_def calm_fetchData) (simp add: calm_def)

lemma base_dispatch_confirm_eq:
  "base_dispatch s (CONFIRM d h b) = (s\<lparr> rt_confirm := Some (CONFIRM d h b) \<rparr>, Inr (CONFIRM d h b))"
  by (simp add: base_dispatch_def rootReducer_def history_other)

text \<open>The handlers that ask.\<close>

lemma handler_item_asks:
  assumes "handler_item pg h = Some i" "first_action i = CONFIRM d header body" "\<And>d. h \<noteq> H_confirm d"
  shows "(h = H_commit \<and> handleCommit pg = confirm_thunk d header body) \<or>
         (edits_selected h \<and> (\<exists>x. d = Plain x))"
  using assms
  by (cases "(pg, h)" rule: handler_item.cases)
     (auto simp: handleCommit_def commitConfig_thunk_def confirm_thunk_def removeNamespace_thunk_def
       removeBucket_thunk_def edits_selected_def undo_thunk_def redo_thunk_def loadConfig_thunk_def
       selectNamespace_thunk_def toggleStats_thunk_def clearConfirm_def)

lemma offered_event: "event env a (Click h) = Some a1 \<Longrightarrow> h \<in> set (page_handlers (app_page env a) (a_locals a))"
  by (auto simp: offered_def split: if_splits)

lemma confirm_event:
  assumes "event env a (Click (H_confirm d)) = Some a1"
  shows "\<exists>h b. rt_confirm (app_state a) = Some (CONFIRM d h b)"
  using page_confirms_asked [OF offered_event [OF assms]] by (simp add: app_page_def Root_mapState_def)

lemma sent_ui_item:
  assumes "event env a e = Some a1" "sent env a e = Some i" "world_ok (a_world a)"
  shows "ui_item i"
proof -
  consider d where "e = Click (H_confirm d)" "i = item_of d" | t where "i = Thk t" "ui_thunk t"
    using sent_ui [OF assms(2)] by blast
  then show ?thesis
  proof cases
    case 1
    then obtain h b where "rt_confirm (app_state a) = Some (CONFIRM d h b)"
      using confirm_event assms(1) by blast
    then have "confirmable d" using assms(3) by (simp add: world_ok_def confirm_ok_def)
    then show ?thesis using 1 by (cases d) simp_all
  qed simp
qed

lemma sent_asks:
  assumes "event env a e = Some a1" "sent env a e = Some i" "world_ok (a_world a)"
    and "first_action i = CONFIRM d header body"
  shows "handleCommit (app_page env a) = confirm_thunk d header body \<or>
         ((\<exists>x. d = Plain x) \<and> \<not> read_only (app_page env a))"
proof -
  have ui: "ui_item i" using sent_ui_item [OF assms(1-3)] .
  then obtain t where t: "i = Thk t"
    using assms(4) by (cases i) (auto simp: api_action_def elim: confirmable.elims split: if_splits)
  show ?thesis
  proof (cases "\<exists>h. e = Click h \<and> handler_item (app_page env a) h = Some i")
    case True
    then obtain h where h: "e = Click h" "handler_item (app_page env a) h = Some i" by blast
    have "h \<noteq> H_confirm d'" for d' using h t by (cases d') auto
    then show ?thesis
      using handler_item_asks [OF h(2) assms(4)] read_only_handlers offered_event assms(1) h(1) by blast
  next
    case False
    have "first_action (Thk (field_call tgt v)) \<noteq> CONFIRM d header body" for tgt v
      by (cases tgt) (simp_all add: updateNamespace_thunk_def updateBucket_thunk_def)
    moreover have "\<And>n x. first_action (Thk (addBucket_thunk n x)) \<noteq> CONFIRM d header body"
      "\<And>x. first_action (Thk (addNamespace_thunk x)) \<noteq> CONFIRM d header body"
      "\<And>x y. first_action (Thk (fetchStats_thunk x y)) \<noteq> CONFIRM d header body"
      by (simp_all add: addBucket_thunk_def addNamespace_thunk_def fetchStats_thunk_def fetchStatsAction_def
          Let_def api_action_def)
    ultimately show ?thesis
      using assms(2,4) False t
      by (cases e) (auto simp: handleAddNamespace_def field_handleChange_def Let_def searchStats_def
          split: handler.splits if_splits sum.splits option.splits dest!: handleAddBucket_thunk)
  qed
qed

lemma dialog_ok_event:
  assumes "event env a e = Some a1" "world_ok (a_world a)" "dialog_ok env (app_state a)"
  shows "dialog_ok env (app_state a1)"
proof (cases "\<exists>n ans. e = Answered n ans")
  case True
  then obtain n ans where e: "e = Answered n ans" by blast
  then have "answers (pending (a_world a) ! n) ans" "task_ok (pending (a_world a) ! n)"
    using assms(1,2) by (auto simp: world_ok_def list_all_iff split: if_splits)
  then have "calm (app_state a) (app_state a1)"
    using calm_deliver [of _ ans "(a_world a)\<lparr> pending := nth_out n (pending (a_world a)) \<rparr>"]
      event_world [OF assms(1)] e by simp
  then show ?thesis using calm_dialog assms(3) by blast
next
  case False
  then have w: "a_world a1 = (if e = Click H_refresh then fetchData env (a_world a)
      else case sent env a e of None \<Rightarrow> a_world a | Some i \<Rightarrow> handle_event (a_world a) i)"
    using event_world [OF assms(1)] by (cases e) auto
  show ?thesis
  proof (cases "sent env a e")
    case None
    then show ?thesis using w assms(3) calm_dialog [OF calm_fetchData] by auto
  next
    case (Some i)
    then have s: "app_state a1 = fst (base_dispatch (app_state a) (first_action i))"
      using w handle_event_action sent_ui_item [OF assms(1) _ assms(2)] by auto
    show ?thesis
    proof (cases "\<exists>d h b. first_action i = CONFIRM d h b")
      case True
      then obtain d h b where c: "first_action i = CONFIRM d h b" by blast
      have "read_only (Root_mapState env (st\<lparr> rt_confirm := x \<rparr>)) = read_only (Root_mapState env st)"
        "handleCommit (Root_mapState env (st\<lparr> rt_confirm := x \<rparr>)) = handleCommit (Root_mapState env st)"
        for st x by (simp_all add: read_only_def Root_mapState_def handleCommit_def)
      then show ?thesis
        using sent_asks [OF assms(1) Some assms(2) c] s c
        by (cases d) (auto simp: base_dispatch_confirm_eq dialog_ok_def app_page_def handleCommit_def
            commitConfig_thunk_def confirm_thunk_def)
    next
      case False
      then show ?thesis using s calm_base calm_dialog assms(3) by metis
    qed
  qed
qed

lemma app_reachable_dialog:
  "app_reachable env a \<Longrightarrow> world_ok (a_world a) \<and> dialog_ok env (app_state a)"
proof (induction rule: app_reachable.induct)
  case app_starts
  have "dialog_ok env (store (fetchData env initial_world))"
    by (simp add: fetchData_def fetchConfigs_start_eq dialog_ok_def)
  then have "dialog_ok env (app_state (app_start env))"
    using calm_dialog [OF calm_refetch] by (simp add: app_start_def)
  then show ?case
    using reachable_ok [OF app_reachable_world] app_reachable.app_starts by blast
next
  case (app_event a e a')
  then obtain a1 where "event env a e = Some a1" "a' = settle env a1"
    by (auto simp: perform_def split: if_splits)
  then have "dialog_ok env (app_state a')"
    using app_event.IH dialog_ok_event calm_dialog [OF calm_refetch] by simp
  moreover have "app_reachable env a'" using app_reachable.app_event [OF app_event.hyps] .
  ultimately show ?case using reachable_ok [OF app_reachable_world] by blast
qed

section \<open>Saving\<close>

text \<open>The saves that are under way.\<close>

definition save_task :: "task \<Rightarrow> bool" where
  "save_task t = (case t of Await_api r \<Rightarrow> commit_call r | _ \<Rightarrow> False)"

definition saves :: "world \<Rightarrow> task list" where
  "saves w = filter save_task (pending w)"

lemma stats_not_save: "stats_call r \<Longrightarrow> \<not> save_task (Await_api r)"
  by (auto simp: save_task_def stats_call_def commit_call_def stats_types_def configs_types_def)

lemma saves_api_start: "\<not> save_task (Await_api r) \<Longrightarrow> saves (api_start w r) = saves w"
  by (auto simp: saves_def api_start_def next_async_store throw_uncaught_def split: prod.split sum.split)

lemma saves_fetchConfigs: "saves (fetchConfigs_start w follow) = saves w"
  by (simp add: saves_def fetchConfigs_start_eq save_task_def)

lemma saves_fetchCapabilities: "saves (fetchCapabilities_start w c) = saves w"
  by (auto simp: saves_def fetchCapabilities_start_def throw_uncaught_def save_task_def
      split: prod.split sum.split)

lemma saves_refetch: "saves (willReceiveProps env w) = saves w"
  by (simp add: willReceiveProps_def fetchData_def saves_fetchConfigs)

lemma saves_handle: "saves (handle_event w i) = saves (fst (dispatch w i))"
  by (simp add: saves_def handle_event_thunk_store)

lemma saves_thunk:
  assumes "ui_thunk t"
  shows "saves (handle_event w (Thk t)) = saves w"
proof (cases t)
  case (Runs x)
  then show ?thesis
    using dispatch_action_store(2) [of w x]
    by (cases "dispatch_action w x") (auto simp: saves_handle, simp add: saves_def)
next
  case Toggle_stats
  then show ?thesis
    using toggle_store(2) [of w]
    by (simp add: saves_handle del: run_thunk.simps) (simp add: saves_def del: run_thunk.simps)
qed (use assms in \<open>auto simp: saves_handle saves_api_start stats_not_save saves_fetchConfigs
      saves_fetchCapabilities\<close>, simp add: saves_def dispatch_action_store)

lemma saves_deliver:
  assumes "task_ok t" "answers t ans"
  shows "saves (deliver w t ans) = saves w"
proof (cases t)
  case (Await_configs follow)
  then show ?thesis
    using fetchConfigs_finish_configs [of follow ans w] assms(2)
    by (auto simp: saves_fetchCapabilities split: prod.split) (simp_all add: saves_def)
qed (use assms in \<open>auto simp: saves_def next_async_store split: option.split answer.split\<close>)

lemma saves_confirmed:
  assumes "confirmable d"
  shows "saves (handle_event w (item_of d)) =
    saves w @ (case d of Call_Api r \<Rightarrow> [Await_api r] | Plain x \<Rightarrow> [])"
proof (cases d)
  case (Plain x)
  then show ?thesis by (simp add: saves_handle) (simp add: saves_def dispatch_action_store)
next
  case (Call_Api r)
  then have r: "validateRSAA r" "types r = configs_types" using assms by (auto simp: commit_call_def)
  then have "pending (api_start w r) = pending w @ [Await_api r]"
    by (auto simp: api_start_def configs_types_def api_action_def base_dispatch_def root_configs_actions)
  then show ?thesis using Call_Api assms by (simp add: saves_handle) (simp add: saves_def save_task_def)
qed

lemma length_filter_nth_out:
  assumes "n < length xs"
  shows "length (filter P (nth_out n xs)) \<le> length (filter P xs)"
proof -
  obtain ys x zs where "xs = ys @ x # zs" "nth_out n xs = ys @ zs" using nth_out_split [OF assms] by blast
  then show ?thesis by simp
qed

lemma saves_event:
  assumes "event env a e = Some a1" "world_ok (a_world a)" "length (saves (a_world a)) < length (saves (a_world a1))"
  shows "\<exists>r. e = Click (H_confirm (Call_Api r)) \<and> saves (a_world a1) = saves (a_world a) @ [Await_api r]"
proof (cases "sent env a e")
  case None
  show ?thesis
  proof (cases "\<exists>n ans. e = Answered n ans")
    case True
    then obtain n ans where e: "e = Answered n ans" by blast
    let ?w = "(a_world a)\<lparr> pending := nth_out n (pending (a_world a)) \<rparr>"
    have t: "n < length (pending (a_world a))" "answers (pending (a_world a) ! n) ans"
      "task_ok (pending (a_world a) ! n)"
      using assms(1,2) e by (auto simp: world_ok_def list_all_iff split: if_splits)
    have "saves (a_world a1) = saves ?w" using event_world [OF assms(1)] saves_deliver t e by simp
    moreover have "length (saves ?w) \<le> length (saves (a_world a))"
      using length_filter_nth_out [OF t(1)] by (simp add: saves_def)
    ultimately show ?thesis using assms(3) by simp
  next
    case False
    then have "saves (a_world a1) = saves (a_world a)"
      using None event_world [OF assms(1)] by (cases e) (auto simp: fetchData_def saves_fetchConfigs)
    then show ?thesis using assms(3) by simp
  qed
next
  case (Some i)
  have w: "a_world a1 = handle_event (a_world a) i"
    using Some event_world [OF assms(1)] by (cases e) auto
  consider d where "e = Click (H_confirm d)" "i = item_of d" | t where "i = Thk t" "ui_thunk t"
    using sent_ui [OF Some] by blast
  then show ?thesis
  proof cases
    case 1
    then have "confirmable d" using sent_ui_item [OF assms(1) Some assms(2)] by (cases d) auto
    then show ?thesis
      using saves_confirmed [of d "a_world a"] w 1 assms(3) by (cases d) auto
  next
    case 2
    then show ?thesis using saves_thunk w assms(3) by simp
  qed
qed

text \<open>
  C4: A save is sent only when the user confirms it, and it sends what the user was shown: if an event
  adds a request that saves, the event is the click on the dialog's button for exactly that
  request, and the request and the text of the dialog are those that saving the tree and the
  version of this moment produces.
\<close>

theorem save_sends_confirmed_tree:
  assumes "app_reachable env a" "perform env a e = Some a'"
    and "length (saves (a_world a)) < length (saves (a_world a'))"
  shows "\<exists>r h b. e = Click (H_confirm (Call_Api r)) \<and> saves (a_world a') = saves (a_world a) @ [Await_api r] \<and>
           rt_confirm (app_state a) = Some (CONFIRM (Call_Api r) h b) \<and>
           commitConfig_thunk (items (cur (rt_namespaces (app_state a)))) (rt_currentVersion (app_state a)) =
             confirm_thunk (Call_Api r) h b"
proof -
  obtain a1 where a1: "event env a e = Some a1" "a' = settle env a1"
    using assms(2) by (auto simp: perform_def split: if_splits)
  have inv: "world_ok (a_world a)" "dialog_ok env (app_state a)"
    using app_reachable_dialog [OF assms(1)] by auto
  obtain r where r: "e = Click (H_confirm (Call_Api r))" "saves (a_world a') = saves (a_world a) @ [Await_api r]"
    using saves_event [OF a1(1) inv(1)] assms(3) a1(2) by (auto simp: saves_refetch)
  then obtain h b where "rt_confirm (app_state a) = Some (CONFIRM (Call_Api r) h b)"
    using confirm_event a1(1) by blast
  then show ?thesis
    using r inv(2) by (auto simp: dialog_ok_def handleCommit_def Root_mapState_def)
qed

section \<open>Pages without permission\<close>

text \<open>The actions that can change the tree or its history.\<close>

definition tree_action :: "action \<Rightarrow> bool" where
  "tree_action a \<longleftrightarrow> edit_action a \<or> loads_config a \<or> a = UNDO \<or> a = REDO \<or> \<not> app_action a"

lemma base_dispatch_tree: "\<not> tree_action a \<Longrightarrow> rt_namespaces (fst (base_dispatch s a)) = rt_namespaces s"
  using rootReducer_slices(1) [of s a] history_other [of a "rt_namespaces s"]
  by (auto simp: tree_action_def base_dispatch_def split: sum.split)

lemma deliver_tree:
  assumes "task_ok t" "answers t ans" "\<And>follow. t \<noteq> Await_configs follow"
  shows "rt_namespaces (store (deliver w t ans)) = rt_namespaces (store w)"
proof (cases t)
  case (Await_api r)
  obtain x where x: "api_result r ans = Some x" using api_result_total assms(2) Await_api by blast
  show ?thesis
  proof (cases "commit_call r")
    case True
    then show ?thesis using commit_store [of r ans w] assms(2) Await_api by simp
  next
    case False
    then have r: "types r = stats_types" using assms(1) Await_api by (auto simp: stats_call_def)
    have "\<exists>t err v. x = api_action t err v \<and> t \<in> {''STATS_REQUEST'', ''STATS_FETCH_SUCCESS'', ''STATS_FAILURE''}"
      using x r by (cases ans) (auto simp: stats_types_def split: prod.splits if_splits sum.splits)
    then have "\<not> tree_action x" by (auto simp: api_action_def tree_action_def)
    then show ?thesis using x Await_api by (simp add: next_async_store base_dispatch_tree)
  qed
next
  case Await_capabilities
  then show ?thesis
    using assms by (cases ans) (auto simp: next_async_store tree_action_def intro!: base_dispatch_tree)
qed (use assms in auto)

text \<open>What changes the tree by a click on something other than an edit of the selected namespace.\<close>

definition tree_click :: "handler \<Rightarrow> bool" where
  "tree_click h \<longleftrightarrow> h \<in> {H_undo, H_redo, H_add_namespace} \<or> (\<exists>c. h = H_load c)"

lemma handler_item_tree:
  assumes "handler_item pg h = Some i" "tree_action (first_action i)"
    and "\<not> edits_selected h" "\<And>d. h \<noteq> H_confirm d"
  shows "tree_click h"
  using assms
  by (cases "(pg, h)" rule: handler_item.cases)
     (auto simp: handleCommit_def commitConfig_thunk_def confirm_thunk_def edits_selected_def tree_click_def
       selectNamespace_thunk_def toggleStats_thunk_def clearConfirm_def tree_action_def)

lemma fetchStats_tree: "\<not> tree_action (first_action (Thk (fetchStats_thunk n b)))"
  by (simp add: fetchStats_thunk_def fetchStatsAction_def Let_def api_action_def tree_action_def)

lemma sent_tree:
  assumes "event env a e = Some a1" "sent env a e = Some i" "tree_action (first_action i)"
    and "read_only (app_page env a)" "world_ok (a_world a)" "dialog_ok env (app_state a)"
  shows "\<exists>h. e = Click h \<and> tree_click h"
proof (cases e)
  case (Click h)
  then have ne: "\<not> edits_selected h" using read_only_handlers offered_event assms(1,4) by blast
  have "tree_click h" if hc: "h = H_confirm d" for d
  proof -
    obtain hd b where c: "rt_confirm (app_state a) = Some (CONFIRM d hd b)"
      using confirm_event assms(1) Click hc by blast
    then obtain r where "d = Call_Api r"
      using assms(4,6) by (cases d) (auto simp: dialog_ok_def app_page_def)
    moreover from this have "commit_call r" using assms(5) c by (simp add: world_ok_def confirm_ok_def)
    ultimately show ?thesis
      using assms(2,3) Click hc by (auto simp: commit_call_def tree_action_def)
  qed
  then show ?thesis
    using handler_item_tree [of "app_page env a" h i] assms(2,3) ne Click
    by (cases h) (auto simp: tree_click_def edits_selected_def)
next
  case (Type_in h s)
  then have "\<not> edits_selected h"
    using assms(1,4) read_only_handlers by (auto simp: offered_def split: if_splits)
  then show ?thesis using assms(2) Type_in by (cases h) (auto simp: edits_selected_def)
qed (use assms(2,3) fetchStats_tree in \<open>auto simp: searchStats_def split: option.splits\<close>)

text \<open>
  C5: A page without the permission to make changes protects the whole configuration: while such a
  namespace is shown, nothing that happens changes the tree, its version or its history, except
  undo, redo, loading a stored configuration, adding another namespace, and the answer to a request
  for the configurations. In particular a dialog that is open cannot remove anything.
\<close>

theorem read_only_page_keeps_tree:
  assumes "app_reachable env a" "read_only (app_page env a)" "perform env a e = Some a'"
    and "rt_namespaces (app_state a') \<noteq> rt_namespaces (app_state a)"
  shows "e \<in> {Click H_undo, Click H_redo, Click H_add_namespace} \<or> (\<exists>c. e = Click (H_load c)) \<or>
         (\<exists>n ans follow. e = Answered n ans \<and> pending (a_world a) ! n = Await_configs follow)"
proof -
  obtain a1 where a1: "event env a e = Some a1" "a' = settle env a1"
    using assms(3) by (auto simp: perform_def split: if_splits)
  have inv: "world_ok (a_world a)" "dialog_ok env (app_state a)"
    using app_reachable_dialog [OF assms(1)] by auto
  have fetch: "rt_namespaces (store (fetchData env w)) = rt_namespaces (store w)" for w
    by (simp add: fetchData_def fetchConfigs_start_eq)
  then have ne: "rt_namespaces (app_state a1) \<noteq> rt_namespaces (app_state a)"
    using assms(4) a1(2) by (auto simp: willReceiveProps_def split: if_splits)
  show ?thesis
  proof (cases "sent env a e")
    case (Some i)
    have "app_state a1 = fst (base_dispatch (app_state a) (first_action i))"
      using Some event_world [OF a1(1)] handle_event_action sent_ui_item [OF a1(1) Some inv(1)]
      by (cases e) auto
    then have "tree_action (first_action i)" using ne base_dispatch_tree by metis
    then show ?thesis
      using sent_tree [OF a1(1) Some _ assms(2) inv] by (auto simp: tree_click_def)
  next
    case None
    then obtain n ans where e: "e = Answered n ans"
      using event_world [OF a1(1)] ne fetch by (cases e) (auto split: if_splits)
    then have "answers (pending (a_world a) ! n) ans" "task_ok (pending (a_world a) ! n)"
      using a1(1) inv(1) by (auto simp: world_ok_def list_all_iff split: if_splits)
    then have "\<exists>follow. pending (a_world a) ! n = Await_configs follow"
      using deliver_tree [of "pending (a_world a) ! n" ans
          "(a_world a)\<lparr> pending := nth_out n (pending (a_world a)) \<rparr>"] ne event_world [OF a1(1)] e
      by (auto simp del: deliver.simps)
    then show ?thesis using e by blast
  qed
qed

section \<open>Search timers\<close>

text \<open>The statistics view is on the page only while the flag of the slice is set.\<close>

definition stats_shown :: "page \<Rightarrow> element \<Rightarrow> bool" where
  "stats_shown pg e = (case e of E_Stats _ \<Rightarrow> st_show (rt_stats (p_state pg)) | _ \<Rightarrow> True)"

lemma stats_shown_needs: "element_needs pg (\<lambda>h. True) (stats_shown pg) l e"
  by (cases e) (auto simp: stats_shown_def bucket_field_def list_all_iff)

interpretation stats_flag: page_invariant "\<lambda>pg h. True" stats_shown
  by unfold_locales (rule element_needs_enough [OF stats_shown_needs])

lemma shows_stats_flag:
  assumes "shows_stats pg l"
  shows "st_show (rt_stats (p_state pg))"
proof -
  have "list_all (stats_shown pg) (page_elements pg l)"
    by (rule stats_flag.page_elements_ok, rule node_ok_QuotaService) (simp_all add: stats_shown_def)
  moreover from assms obtain e where "e \<in> set (page_elements pg l)"
    "case e of E_Stats _ \<Rightarrow> True | _ \<Rightarrow> False"
    by (auto simp: shows_stats_def list_ex_iff)
  ultimately show ?thesis by (cases e) (auto simp: list_all_iff stats_shown_def)
qed

lemma l_stats_updates [simp]:
  "l_stats (a_locals (dispatch_thunk a t)) = l_stats (a_locals a)"
  "l_stats (a_locals (set_sidebar a sb)) = l_stats (a_locals a)"
  by (simp_all add: dispatch_thunk_def set_sidebar_def split: option.split)

lemma event_keeps_view:
  assumes "event env a e = Some a1" "e \<noteq> Search_timer" "\<And>s. e \<noteq> Type_in H_search s"
  shows "l_stats (a_locals a1) = l_stats (a_locals a)"
proof (cases e)
  case (Click h)
  then have "click env a h = Some a1" using assms(1) by (simp split: if_splits)
  then show ?thesis by (cases h) (auto simp: click_def split: if_splits prod.splits sum.splits)
next
  case (Type_in h s)
  then have "type_in env a h s = Some a1" using assms(1) by (simp split: if_splits)
  then show ?thesis using assms(3) Type_in by (cases h) (auto simp: type_in_def)
qed (use assms in \<open>auto split: if_splits prod.splits\<close>)

lemma settle_lost_timer:
  assumes "sv_searchTimer (l_stats (a_locals a)) = Some t" "\<not> st_show (rt_stats (app_state (settle env a)))"
  shows "t \<in> set (a_timers (settle env a))"
proof -
  have "\<not> shows_stats (Root_mapState env (store (willReceiveProps env (a_world a)))) (a_locals a)"
    using shows_stats_flag assms(2) by (fastforce simp: Root_mapState_def)
  then show ?thesis using assms(1) by (simp add: settle_def mount_def Let_def app_page_def)
qed

lemma fetchStats_request:
  "Await_api (fetchStatsAction n b) \<in> set (pending (handle_event w (Thk (fetchStats_thunk n b))))"
  by (simp add: handle_event_thunk_store fetchStats_thunk_def fetchStatsAction_def Let_def api_start_def
      validateRSAA_def api_action_def base_dispatch_def rootReducer_def history_other)

lemma pending_refetch: "t \<in> set (pending w) \<Longrightarrow> t \<in> set (pending (willReceiveProps env w))"
  by (simp add: willReceiveProps_def fetchData_def fetchConfigs_start_eq)

text \<open>
  C26: A search outlives its view: when the user leaves the statistics while the timer of a search
  runs, the timer is not stopped; it still fires on the page that is shown then, and requests the
  statistics of the namespace and text it was started for.
\<close>

theorem search_outlives_view:
  assumes "perform env a e = Some a'" "e \<noteq> Search_timer" "\<forall>s. e \<noteq> Type_in H_search s"
    and "sv_searchTimer (l_stats (a_locals a)) = Some (n, b)"
    and "a_mounted a'" "\<not> st_show (rt_stats (app_state a'))"
  shows "\<exists>i a''. perform env a' (Lost_timer i) = Some a'' \<and>
           Await_api (fetchStatsAction (to_str n) (Some b)) \<in> set (pending (a_world a''))"
proof -
  obtain a1 where a1: "event env a e = Some a1" "a' = settle env a1"
    using assms(1) by (auto simp: perform_def split: if_splits)
  have "sv_searchTimer (l_stats (a_locals a1)) = Some (n, b)"
    using event_keeps_view [OF a1(1) assms(2)] assms(3,4) by simp
  then have "(n, b) \<in> set (a_timers a')" using settle_lost_timer assms(6) a1(2) by blast
  then obtain i where i: "i < length (a_timers a')" "a_timers a' ! i = (n, b)"
    by (auto simp: in_set_conv_nth)
  then have "perform env a' (Lost_timer i) = Some (settle env (dispatch_thunk
      (a'\<lparr> a_timers := nth_out i (a_timers a') \<rparr>) (Some (fetchStats_thunk (to_str n) (Some b)))))"
    using assms(5) by (simp add: perform_def)
  then show ?thesis using fetchStats_request pending_refetch by fastforce
qed

section \<open>Sessions\<close>

text \<open>Concrete runs from the start of the application, each event offered by the page before it.\<close>

lemma read_only_code [code]:
  "read_only pg \<longleftrightarrow>
     (case p_selected pg of
        None \<Rightarrow> False
      | Some sel \<Rightarrow> \<not> s_canMakeChanges sel \<and> \<not> st_show (rt_stats (p_state pg)))"
  by (auto simp: read_only_def split: option.split)

definition sample_answer :: answer where
  "sample_answer =
     Response True 200 ''OK'' True
       (Inr (JObj [(''configs'', JArr [JObj [(''version'', JNum 3), (''namespaces'',
          JObj [(''ns'', JObj [(''name'', JStr ''ns''), (''dynamic_bucket_template'',
            JObj [(''name'', JStr ''___DYNAMIC_BUCKET_TPL___''), (''size'', JNum 5)])])])]])]))"

definition capable_env :: environment where
  "capable_env = \<lparr> env_environment = ''staging'', env_capabilities = True \<rparr>"

definition read_only_session :: "ui_event list" where
  "read_only_session =
     [Answered 0 sample_answer, Answered 0 (Capabilities_callback (JObj [])),
      Tile_answer ''ns'' (JBool False), Click (H_select (JStr ''ns'') False),
      Type_in (H_set_text ''namespace'') ''other'']"

definition save_session :: "ui_event list" where
  "save_session = [Answered 0 sample_answer, Click H_commit]"

definition search_session :: "ui_event list" where
  "search_session =
     [Answered 0 sample_answer, Click (H_select (JStr ''ns'') True), Click H_toggle_stats,
      Type_in H_search ''key'']"

definition asked_item :: "app \<Rightarrow> dispatchable" where
  "asked_item a = (case rt_confirm (app_state a) of Some (CONFIRM d h b) \<Rightarrow> d | _ \<Rightarrow> Plain UNDO)"

text \<open>A condition on the state after a session and on the state after one more event.\<close>

definition session :: "environment \<Rightarrow> ui_event list \<Rightarrow> (app \<Rightarrow> ui_event) \<Rightarrow> (app \<Rightarrow> app \<Rightarrow> bool) \<Rightarrow> bool" where
  "session env es e P =
     (case run_app env (app_start env) es of
        None \<Rightarrow> False
      | Some a \<Rightarrow> (case perform env a (e a) of None \<Rightarrow> False | Some a' \<Rightarrow> P a a'))"

lemma sessionE:
  assumes "session env es e P"
  obtains a a' where "app_reachable env a" "perform env a (e a) = Some a'" "P a a'"
  using assms run_app_reachable [OF app_reachable.app_starts, of env es]
  by (auto simp: session_def split: option.splits)

lemma read_only_session_runs:
  "session capable_env read_only_session (\<lambda>a. Click H_add_namespace)
     (\<lambda>a a'. read_only (app_page capable_env a) \<and> rt_namespaces (app_state a') \<noteq> rt_namespaces (app_state a))"
  by code_simp

lemma save_session_runs:
  "session sample_env save_session (\<lambda>a. Click (H_confirm (asked_item a)))
     (\<lambda>a a'. length (saves (a_world a)) < length (saves (a_world a')))"
  by code_simp

lemma search_session_runs:
  "session sample_env search_session (\<lambda>a. Click H_toggle_stats)
     (\<lambda>a a'. sv_searchTimer (l_stats (a_locals a)) = Some (JStr ''ns'', ''key'') \<and>
            a_mounted a' \<and> \<not> st_show (rt_stats (app_state a')))"
  by code_simp

theorem application_refines_store_witness:
  "\<exists>a. rt_confirm (app_state a) \<noteq> None \<and> reachable (a_world a)"
proof -
  obtain a a' where "app_reachable sample_env a" "perform sample_env a (Click (H_confirm (asked_item a))) = Some a'"
    using save_session_runs by (rule sessionE)
  moreover from this have "H_confirm (asked_item a) \<in> set (offered sample_env a)"
    by (auto simp: perform_def split: if_splits)
  ultimately show ?thesis using application_refines_store [of sample_env a] by fastforce
qed


theorem save_sends_confirmed_tree_witness:
  "\<exists>a r h b. app_reachable sample_env a \<and>
     commitConfig_thunk (items (cur (rt_namespaces (app_state a)))) (rt_currentVersion (app_state a)) =
       confirm_thunk (Call_Api r) h b"
proof -
  obtain a a' where "app_reachable sample_env a" "perform sample_env a (Click (H_confirm (asked_item a))) = Some a'"
    "length (saves (a_world a)) < length (saves (a_world a'))"
    using save_session_runs by (rule sessionE)
  then show ?thesis using save_sends_confirmed_tree [of sample_env a _ a'] by blast
qed

theorem read_only_page_keeps_tree_witness:
  "\<exists>a a'. read_only (app_page capable_env a) \<and> perform capable_env a (Click H_add_namespace) = Some a' \<and>
     rt_namespaces (app_state a') \<noteq> rt_namespaces (app_state a) \<and>
     (Click H_add_namespace \<in> {Click H_undo, Click H_redo, Click H_add_namespace} \<or>
      (\<exists>c. Click H_add_namespace = Click (H_load c)))"
proof -
  obtain a a' where "app_reachable capable_env a" "perform capable_env a (Click H_add_namespace) = Some a'"
    "read_only (app_page capable_env a) \<and> rt_namespaces (app_state a') \<noteq> rt_namespaces (app_state a)"
    using read_only_session_runs by (rule sessionE)
  then show ?thesis using read_only_page_keeps_tree [of capable_env a "Click H_add_namespace" a'] by blast
qed

theorem search_outlives_view_witness:
  "\<exists>a i a''. \<not> st_show (rt_stats (app_state a)) \<and> perform sample_env a (Lost_timer i) = Some a'' \<and>
     Await_api (fetchStatsAction ''ns'' (Some ''key'')) \<in> set (pending (a_world a''))"
proof -
  obtain a a' where "perform sample_env a (Click H_toggle_stats) = Some a'"
    "sv_searchTimer (l_stats (a_locals a)) = Some (JStr ''ns'', ''key'') \<and> a_mounted a' \<and>
     \<not> st_show (rt_stats (app_state a'))"
    using search_session_runs by (rule sessionE)
  then show ?thesis using search_outlives_view [of sample_env a "Click H_toggle_stats" a'] by fastforce
qed

end
