(* ===== verification/Page_Survival.thy ===== *)
theory Page_Survival
  imports Page_Editing
begin

text \<open>
  Edits never break the page. What the components need of the tree is restated as conditions on
  paths (\<open>tree_ok_iff\<close>); an edit writes one path, so it is enough to compare that path with the ones
  the components read.
\<close>

section \<open>The tree by its paths\<close>

definition obj_at :: "jsval \<Rightarrow> string list \<Rightarrow> bool" where
  "obj_at t p = (case lookup_in t p of Some v \<Rightarrow> is_obj v | None \<Rightarrow> False)"

text \<open>Where the page shows a name: of a namespace, of its special buckets and of its named ones.\<close>

definition name_path :: "string list \<Rightarrow> bool" where
  "name_path p \<longleftrightarrow>
     (\<exists>k. p = [k, ''name'']) \<or>
     (\<exists>k f. f \<in> {''dynamic_bucket_template'', ''default_bucket''} \<and> p = [k, f, ''name'']) \<or>
     (\<exists>k b. p = [k, ''buckets'', b, ''name''])"

lemma child_ok_wf: "wf_tree v \<Longrightarrow> child_ok v \<longleftrightarrow> \<not> is_obj v"
  by (cases v) (auto simp: child_ok_def)

lemma plain_not_immutable: "plain_name k \<Longrightarrow> k \<notin> set immutable_names"
  by (simp add: plain_name_def safe_key_def)

lemma invariants_immutable: "''__immutable_invariants_hold'' \<in> set immutable_names"
  by (simp add: immutable_names_def)

lemma im_prop_plain:
  "plain_name k \<Longrightarrow> im_prop v k =
     (case v of JObj kvs \<Rightarrow> (case map_of kvs k of Some u \<Rightarrow> u | None \<Rightarrow> JUndef) | _ \<Rightarrow> prop_of v k)"
  using plain_not_immutable [of k] invariants_immutable
  by (auto simp: im_prop_def inherited_plain split: jsval.split option.split)

lemma array_index_name: "array_index ''name'' = None"
  by (simp add: array_index_def digit_of_def)

lemma inherited_name: "inherited ''name'' = JUndef"
  by (simp add: inherited_plain)

lemma bucket_ok_wf: "wf_tree b \<Longrightarrow> bucket_ok b \<longleftrightarrow> \<not> obj_at b [''name'']"
proof (cases b)
  case (JObj kvs)
  assume "wf_tree b"
  then have "wf_tree v" if "map_of kvs ''name'' = Some v" for v
    using that JObj wf_tree_lookup_in [of b "[''name'']" v] by simp
  then show ?thesis
    using JObj by (auto simp: bucket_ok_def obj_at_def im_prop_plain child_ok_wf child_ok_def [of JUndef]
        split: option.split)
qed (auto simp: bucket_ok_def obj_at_def im_prop_plain child_ok_def array_index_name inherited_name)

lemma bucket_ok_inherited: "bucket_ok (inherited k)"
  by (auto simp: inherited_def bucket_ok_def im_prop_plain child_ok_def inherited_name)

lemma bucket_ok_flat: "wf_tree b \<Longrightarrow> \<not> is_obj b \<Longrightarrow> bucket_ok b"
  by (cases b) (auto simp: bucket_ok_wf obj_at_def)

lemma buckets_ok_wf: "wf_tree bs \<Longrightarrow> list_all bucket_ok (bucket_values bs) \<longleftrightarrow> (\<forall>b. \<not> obj_at bs [b, ''name''])"
proof (cases bs)
  case (JObj kvs)
  assume wf: "wf_tree bs"
  then have kvs: "wf_props kvs" using JObj by simp
  have "bucket_ok (im_prop bs b) \<longleftrightarrow> \<not> obj_at bs [b, ''name'']" if b: "map_of kvs b = Some v" for b v
  proof -
    have "wf_tree v" using wf_tree_lookup_in [of bs "[b]" v] wf b JObj by simp
    then show ?thesis using b JObj im_prop_wf [OF kvs b] bucket_ok_wf by (simp add: obj_at_def)
  qed
  moreover have "\<not> obj_at bs [b, ''name'']" if "map_of kvs b = None" for b
    using that JObj by (simp add: obj_at_def)
  moreover have "b \<in> set (object_keys kvs) \<longleftrightarrow> map_of kvs b \<noteq> None" for b
    by (simp add: set_object_keys map_of_eq_None_iff)
  moreover have "bucket_values bs = map (im_prop bs) (object_keys kvs)"
    using JObj by (simp add: bucket_values_def)
  ultimately show ?thesis by (simp add: list_all_iff) blast
next
  case (JStr s)
  have "bucket_ok (prop_of (JStr s) k)" for k
    using bucket_ok_inherited [of k] bucket_ok_flat by (auto split: option.split)
  then have "bucket_ok (im_prop (JStr s) k)" for k by (simp add: im_prop_def)
  then show ?thesis using JStr by (auto simp: bucket_values_def list_all_iff obj_at_def)
qed (auto simp: bucket_values_def obj_at_def object_keys_def)

lemma obj_at_Cons:
  "obj_at (JObj kvs) (k # p) = (case map_of kvs k of None \<Rightarrow> False | Some v \<Rightarrow> obj_at v p)"
  by (simp add: obj_at_def split: option.split)

lemma obj_at_im_prop:
  assumes "plain_name k" "p \<noteq> []"
  shows "obj_at (im_prop (JObj kvs) k) p = obj_at (JObj kvs) (k # p)"
  using assms by (cases p) (auto simp: im_prop_plain obj_at_def split: option.split)

lemma namespace_ok_wf:
  assumes "wf_tree ns"
  shows "namespace_ok ns \<longleftrightarrow> is_obj ns \<and> \<not> obj_at ns [''name''] \<and>
    \<not> obj_at ns [''dynamic_bucket_template'', ''name''] \<and> \<not> obj_at ns [''default_bucket'', ''name''] \<and>
    (\<forall>b. \<not> obj_at ns [''buckets'', b, ''name''])"
proof (cases "is_obj ns")
  case True
  then obtain kvs where ns: "ns = JObj kvs" "wf_props kvs" using assms by (cases ns) auto
  have "child_ok (im_prop ns ''name'') \<longleftrightarrow> \<not> obj_at ns [''name'']"
    using ns wf_im_prop [OF assms, of "''name''"]
    by (auto simp: child_ok_wf im_prop_plain obj_at_def split: option.split)
  then show ?thesis
    using ns by (auto simp: namespace_ok_def bucket_ok_wf buckets_ok_wf wf_im_prop obj_at_im_prop)
qed (auto simp: namespace_ok_def)

lemma tree_ok_iff:
  assumes "config_tree t"
  shows "tree_ok t \<longleftrightarrow> (\<forall>k ns. lookup_in t [k] = Some ns \<longrightarrow> is_obj ns) \<and> (\<forall>p. name_path p \<longrightarrow> \<not> obj_at t p)"
proof -
  obtain kvs where t: "t = JObj kvs" "wf_props kvs" using assms by (auto simp: config_tree_obj)
  let ?ok = "\<lambda>ns. is_obj ns \<and> \<not> obj_at ns [''name''] \<and> \<not> obj_at ns [''dynamic_bucket_template'', ''name''] \<and>
    \<not> obj_at ns [''default_bucket'', ''name''] \<and> (\<forall>b. \<not> obj_at ns [''buckets'', b, ''name''])"
  have "namespace_ok (im_prop t k) \<longleftrightarrow> ?ok ns" if "map_of kvs k = Some ns" for k ns
    using that t im_prop_wf [OF t(2) that] namespace_ok_wf [of ns] wf_tree_lookup_in [of t "[k]" ns] by simp
  moreover have "k \<in> set (object_keys kvs) \<longleftrightarrow> map_of kvs k \<noteq> None" for k
    by (simp add: set_object_keys map_of_eq_None_iff)
  ultimately have "tree_ok t \<longleftrightarrow> (\<forall>k ns. map_of kvs k = Some ns \<longrightarrow> ?ok ns)"
    using assms t by (simp add: tree_ok_def list_all_iff) blast
  also have "\<dots> \<longleftrightarrow> (\<forall>k ns. lookup_in t [k] = Some ns \<longrightarrow> is_obj ns) \<and> (\<forall>p. name_path p \<longrightarrow> \<not> obj_at t p)"
    (is "?l \<longleftrightarrow> ?r")
  proof
    assume ?l
    then show ?r using t by (auto simp: name_path_def obj_at_Cons split: option.splits)
  next
    assume r: ?r
    show ?l
    proof (intro allI impI)
      fix k ns assume k: "map_of kvs k = Some ns"
      then have "obj_at ns p \<longleftrightarrow> obj_at t (k # p)" for p using t by (simp add: obj_at_Cons)
      moreover have "name_path [k, ''name'']" "name_path [k, ''dynamic_bucket_template'', ''name'']"
        "name_path [k, ''default_bucket'', ''name'']" "name_path [k, ''buckets'', b, ''name'']" for b
        by (auto simp: name_path_def)
      moreover have "lookup_in t [k] = Some ns" using k t by simp
      then have "is_obj ns" using r by blast
      ultimately show "?ok ns" using r by blast
    qed
  qed
  finally show ?thesis .
qed

section \<open>Edits keep the tree in shape\<close>

text \<open>
  The edits of the page: ordinary names, and fields that hold neither a name nor buckets, with
  values that are no objects.
\<close>

fun field_edit :: "action \<Rightarrow> bool" where
  "field_edit (UPDATE_NAMESPACE n k v) =
     (safe_edit (UPDATE_NAMESPACE n k v) \<and> \<not> is_obj v \<and>
      k \<notin> {''name'', ''buckets'', ''default_bucket'', ''dynamic_bucket_template''})"
| "field_edit (UPDATE_BUCKET n b k v) = (safe_edit (UPDATE_BUCKET n b k v) \<and> \<not> is_obj v \<and> k \<noteq> ''name'')"
| "field_edit a = safe_edit a"

lemma field_edit_safe: "field_edit a \<Longrightarrow> safe_edit a"
  by (cases a) auto

lemma bucket_path_name:
  assumes "name_path p"
  shows "diverge (bucket_path n b) p \<or> p = bucket_path n b @ [''name'']"
proof -
  consider "bucket_path n b = [n, ''default_bucket'']" | "bucket_path n b = [n, ''dynamic_bucket_template'']"
    | "bucket_path n b = [n, ''buckets'', b]"
    by (cases "b = ''___DEFAULT_BUCKET___''"; cases "b = ''___DYNAMIC_BUCKET_TPL___''")
       (simp_all add: bucket_path_def special_key_def)
  then show ?thesis using assms by cases (auto simp: name_path_def)
qed

lemma diverge_same_prefix: "diverge (q @ xs) (q @ ys) \<longleftrightarrow> diverge xs ys"
  by (induction q) auto

text \<open>Where the path of an edit meets a name that is shown, there is no object afterwards.\<close>

lemma edit_target_name:
  assumes "field_edit a" "name_path p"
  shows "diverge (fst (edit_target a)) p \<or>
    (\<exists>r. p = fst (edit_target a) @ r \<and>
       (\<forall>v. snd (edit_target a) = Some v \<longrightarrow> \<not> obj_at v r))"
proof (cases a)
  case (ADD_NAMESPACE n)
  then show ?thesis using assms(2) by (auto simp: name_path_def obj_at_def)
next
  case (ADD_BUCKET n b)
  then obtain s where s: "b = JStr s" using assms(1) by (auto elim: plain_bucketE)
  have "\<not> obj_at (JObj [(''name'', JStr s), (''namespace'', JStr n)]) [''name'']" by (simp add: obj_at_def)
  then show ?thesis using bucket_path_name [OF assms(2), of n s] ADD_BUCKET s by auto
next
  case (UPDATE_BUCKET n b k v)
  then obtain s where s: "b = JStr s" using assms(1) by (auto elim: plain_bucketE)
  have "k \<noteq> ''name''" using assms(1) UPDATE_BUCKET by simp
  then have "diverge (bucket_path n s @ [k]) p"
    using bucket_path_name [OF assms(2), of n s] diverge_append [of "bucket_path n s" p "[k]" "[]"]
    by (auto simp: diverge_same_prefix)
  then show ?thesis using UPDATE_BUCKET s by simp
next
  case (REMOVE_BUCKET n b)
  then obtain s where s: "b = JStr s" using assms(1) by (auto elim: plain_bucketE)
  then show ?thesis using bucket_path_name [OF assms(2), of n s] REMOVE_BUCKET by auto
qed (use assms in \<open>auto simp: name_path_def\<close>)

lemma writes_keep_names:
  assumes "writes_at t (fst (edit_target a)) (snd (edit_target a)) t'" "field_edit a"
    and "name_path p" "\<not> obj_at t p"
  shows "\<not> obj_at t' p"
proof -
  consider (away) "diverge (fst (edit_target a)) p"
    | (below) r where "p = fst (edit_target a) @ r" "\<forall>v. snd (edit_target a) = Some v \<longrightarrow> \<not> obj_at v r"
    using edit_target_name [OF assms(2,3)] by blast
  then show ?thesis
  proof cases
    case away
    then show ?thesis using assms(1,4) by (simp add: writes_at_def obj_at_def)
  next
    case below
    then show ?thesis
      using assms(1) by (auto simp: writes_at_def obj_at_def lookup_in_append split: option.splits)
  qed
qed

lemma writes_keep_objects:
  assumes "writes_at t q v t'" "q \<noteq> []"
    and "\<And>u. tl q = [] \<Longrightarrow> v = Some u \<Longrightarrow> is_obj u" "tl q \<noteq> [] \<Longrightarrow> v \<noteq> None"
    and "\<And>k ns. lookup_in t [k] = Some ns \<Longrightarrow> is_obj ns" "lookup_in t' [m] = Some ns"
  shows "is_obj ns"
proof (cases "diverge q [m]")
  case True
  then show ?thesis using assms(1,5,6) by (auto simp: writes_at_def simp del: lookup_in.simps)
next
  case False
  then obtain ks where q: "q = m # ks" using diverge_single [OF assms(2)] by blast
  have v: "lookup_in t' q = v" using assms(1) by (simp add: writes_at_def)
  show ?thesis
  proof (cases ks)
    case Nil
    then show ?thesis using q v assms(3,6) by simp
  next
    case (Cons k' ks')
    then have "lookup_in ns ks \<noteq> None"
      using q v assms(4,6) lookup_in_append [of t' "[m]" ks] by simp
    then show ?thesis using Cons by (cases ns) auto
  qed
qed

lemma removeBucket_tree:
  assumes "config_tree (items p)" "plain_name n" "plain_name b"
    and "removeBucket p n (JStr b) = Inr (r, a')"
  shows "\<exists>sub. writes_at (items p) (bucket_parent n b) (Some (JObj sub)) (items (r_present r))"
proof -
  let ?q = "bucket_parent n b"
  obtain kvs where kvs: "items p = JObj kvs" "wf_props kvs" using assms(1) wf_props_items by blast
  obtain sub where sub: "lookup_in (items p) ?q = Some (JObj sub)"
    using removeBucket_success [OF assms] by blast
  have q: "config_path ?q" using assms(2) by simp
  have r: "items (r_present r) =
      JObj (set_at kvs ?q (JObj (filter (\<lambda>kv. fst kv \<noteq> bucket_name b) sub)))"
    using assms(4) sub kvs remove_in_tree [OF kvs(2) q, of sub]
    by (auto simp: removeBucket_eq [OF assms(3)])
  moreover have "config_tree (items (r_present r))"
    using namespaces_keeps_tree [OF assms(1), of "REMOVE_BUCKET n (JStr b)"] assms by simp
  ultimately show ?thesis using kvs q by (auto simp: writes_at_def im_simps)
qed

lemma edit_writes:
  assumes "config_tree (items p)" "safe_edit a" "namespaces p a = Inr (r, a')"
  shows "writes_at (items p) (fst (edit_target a)) (snd (edit_target a)) (items (r_present r))"
proof -
  have "\<not> removes_nowhere (items p) a" using removes_nowhere_throws [OF assms(1,2)] assms(3) by auto
  then show ?thesis using safe_edit_result [OF assms(1,2)] assms(3) by (auto simp: edited_def)
qed

lemma edit_keeps_objects:
  assumes "config_tree (items p)" "safe_edit a" "namespaces p a = Inr (r, a')"
    and "\<And>k ns. lookup_in (items p) [k] = Some ns \<Longrightarrow> is_obj ns"
    and "lookup_in (items (r_present r)) [m] = Some ns"
  shows "is_obj ns"
proof (cases "\<exists>n b. a = REMOVE_BUCKET n b")
  case True
  then obtain n b where "a = REMOVE_BUCKET n (JStr b)" "plain_name n" "plain_name b"
    using assms(2) by (auto elim!: plain_bucketE)
  then obtain sub where
    "writes_at (items p) (bucket_parent n b) (Some (JObj sub)) (items (r_present r))"
    using removeBucket_tree assms(1,3) by fastforce
  then show ?thesis by (rule writes_keep_objects) (use assms(4,5) in auto)
next
  case False
  show ?thesis
    using edit_writes [OF assms(1-3)]
  proof (rule writes_keep_objects)
    show "fst (edit_target a) \<noteq> []" using False assms(2) by (cases a) (auto elim!: plain_bucketE)
    show "is_obj u" if "tl (fst (edit_target a)) = []" "snd (edit_target a) = Some u" for u
      using that False assms(2) by (cases a) (auto simp: bucket_path_def elim!: plain_bucketE split: option.splits)
    show "snd (edit_target a) \<noteq> None" if "tl (fst (edit_target a)) \<noteq> []"
      using that False assms(2) by (cases a) (auto elim!: plain_bucketE)
  qed (use assms(4,5) in auto)
qed

lemma edit_keeps_tree_ok:
  assumes "tree_ok (items p)" "field_edit a" "namespaces p a = Inr (r, a')"
  shows "tree_ok (items (r_present r))"
proof -
  have t: "config_tree (items p)" using assms(1) by (simp add: tree_ok_def)
  have safe: "safe_edit a" using field_edit_safe [OF assms(2)] .
  have "config_tree (items (r_present r))" using namespaces_keeps_tree [OF t safe assms(3)] .
  then show ?thesis
    using tree_ok_iff [OF t] assms(1) tree_ok_iff [of "items (r_present r)"]
      edit_keeps_objects [OF t safe assms(3)] writes_keep_names [OF edit_writes [OF t safe assms(3)] assms(2)]
    by blast
qed

section \<open>Edits keep the page\<close>

lemma edit_change_shown:
  assumes "field_edit a" "namespaces p a = Inr (r, a')"
  shows "version (r_present r) = version p \<and> result_ok (description (r_change r))"
proof -
  have "child_of v \<noteq> Inl e" if "config_value v" "\<not> is_obj v" for v e
    using that by (cases v) (auto simp: config_value_def)
  then show ?thesis
    using assms
    by (cases a) (auto simp: js_simps addNamespace_def updateNamespace_def removeNamespace_def addBucket_def
        updateBucket_def removeBucket_def Let_def edited_def description_def result_ok_def
        split: sum.splits)
qed

lemma reduce_of_root:
  assumes "rootReducer (Some s) a = Inr (s', a')" "edit_action a"
  shows "\<exists>r. namespaces (cur (rt_namespaces s)) a = Inr (r, a') \<and>
    reduce namespaces (rt_namespaces s) a = Inr (rt_namespaces s', a')"
proof -
  have "history_reducer namespaces (Some (rt_namespaces s)) a = Inr (rt_namespaces s', a')"
    using rootReducer_slices(1) [OF assms(1)] .
  then have "reduce namespaces (rt_namespaces s) a = Inr (rt_namespaces s', a')"
    using assms(2) by (cases a) (auto simp: history_reducer_def)
  then show ?thesis by (auto simp: reduce_def js_simps split: if_splits list.splits)
qed

lemma root_edit:
  assumes "labelled (rt_namespaces s)" "edit_action a" "namespaces (cur (rt_namespaces s)) a = Inr (r, a')"
  shows "\<exists>s'. rootReducer (Some s) a = Inr (s', a')"
proof -
  obtain ns where ns: "reduce namespaces (rt_namespaces s) a = Inr (ns, a')"
    using ns_history.reduce_edit [OF assms] by blast
  then have "history_reducer namespaces (Some (rt_namespaces s)) a = Inr (ns, a')"
    using assms(2) by (cases a) (auto simp: history_reducer_def)
  moreover have "history_move a'" using edit_result [OF assms(2,3)] by (simp add: history_move_def)
  ultimately show ?thesis using root_history_move by blast
qed

lemma edit_other_slices:
  assumes "rootReducer (Some s) a = Inr (s', a')" "edit_action a"
  shows "rt_configs s' = rt_configs s \<and> rt_stats s' = rt_stats s \<and>
    rt_currentVersion s' = rt_currentVersion s \<and> rt_confirm s' = None"
proof -
  have a': "edit_action a'" using history_action [OF rootReducer_slices(1) [OF assms(1)]] assms(2) by auto
  then have "stats (Some (rt_stats s)) a' = Inr (Some (rt_stats s))"
    "currentVersion (Some (rt_currentVersion s)) a' = Inr (rt_currentVersion s)"
    by (cases a'; simp)+
  moreover have "a \<noteq> CONFIRM d h b" for d h b using assms(2) by auto
  ultimately show ?thesis
    using rootReducer_slices(3,4) [OF assms(1)] rt_configs_other [OF assms(1)] rt_confirm_other [OF assms(1)]
      edit_not_configs [OF assms(2)] assms(2) by auto
qed

lemma edit_keeps_showable:
  assumes "showable l s" "labelled (rt_namespaces s)" "field_edit a" "rootReducer (Some s) a = Inr (s', a')"
  shows "showable l s'"
proof -
  let ?ns = "rt_namespaces s"
  have edit: "edit_action a" using safe_edit_edits [OF field_edit_safe [OF assms(3)]] .
  obtain r where r: "namespaces (cur ?ns) a = Inr (r, a')" "reduce namespaces ?ns a = Inr (rt_namespaces s', a')"
    using reduce_of_root [OF assms(4) edit] by blast
  have ns': "rt_namespaces s' = \<lparr> cur = r_present r, hist =
      \<lparr> past = (if merges ?ns (r_change r)
               then \<lparr> e_change = r_change r, e_present = e_present (hd (past (hist ?ns))) \<rparr> # tl (past (hist ?ns))
               else \<lparr> e_change = r_change r, e_present = cur ?ns \<rparr> # past (hist ?ns)),
        future = [] \<rparr> \<rparr>"
    using r(2) ns_history.reduce_edit_eq [OF assms(2) edit r(1)] by simp
  have old: "tree_ok (items (cur ?ns))" "list_all entry_ok (past (hist ?ns))"
    using assms(1) by (simp_all add: showable_def)
  have "tree_ok (items (r_present r))" using edit_keeps_tree_ok [OF old(1) assms(3) r(1)] .
  moreover have "list_all entry_ok (tl (past (hist ?ns)))"
    using old(2) by (cases "past (hist ?ns)") simp_all
  ultimately show ?thesis
    using assms(1) ns' old(2) edit_change_shown [OF assms(3) r(1)] edit_other_slices [OF assms(4) edit]
    by (simp add: showable_def entry_ok_def confirm_ok_def)
qed

lemma edit_keeps_plain_selection:
  assumes "rootReducer (Some s) a = Inr (s', a')" "safe_edit a"
    and "\<And>sel. rt_selectedNamespace s = Some sel \<Longrightarrow> plain_name (sel_namespace sel)"
    and "rt_selectedNamespace s' = Some sel"
  shows "plain_name (sel_namespace sel)"
proof -
  have edit: "edit_action a" using safe_edit_edits [OF assms(2)] .
  obtain r where r: "namespaces (cur (rt_namespaces s)) a = Inr (r, a')"
    using reduce_of_root [OF assms(1) edit] by blast
  have "selectedNamespace (rt_selectedNamespace s) a' = Some sel"
    using rootReducer_slices(6) [OF assms(1)] assms(4) by simp
  then show ?thesis
    using assms(2,3) edit r
    by (cases a) (auto simp: js_simps select_def updateBucket_def removeBucket_def Let_def split: if_splits)
qed

lemma page_survives:
  assumes "showable l s" "labelled (rt_namespaces s)" "selection_present s"
    and "\<And>sel. rt_selectedNamespace s = Some sel \<Longrightarrow> plain_name (sel_namespace sel)"
    and "field_edit a" "rootReducer (Some s) a = Inr (s', a')"
  shows "showable l s' \<and> selection_present s' \<and> (\<exists>ds. render_page (Root_mapState env s') l = Inr ds)"
proof -
  have safe: "safe_edit a" using field_edit_safe [OF assms(5)] .
  have "config_tree (items (cur (rt_namespaces s)))" using assms(1) by (simp add: showable_def tree_ok_def)
  then have sel: "selection_present s'"
    using edit_keeps_selection [OF _ assms(2) safe assms(3,6)] by blast
  have show': "showable l s'" using edit_keeps_showable [OF assms(1,2,5,6)] .
  have plain: "plain_name (sel_namespace sel)" if "rt_selectedNamespace s' = Some sel" for sel
    using edit_keeps_plain_selection [OF assms(6) safe assms(4) that] .
  show ?thesis using renders_selection [OF show' plain, of env] sel show' by blast
qed

text \<open>
  C16: An edit never breaks the page: if the page can be rendered and the user then changes a field,
  adds or removes a bucket or a namespace, all with ordinary names, the whole page can be rendered
  again: the data keeps the shapes the components expect, the new entry of the history can be
  shown, and the namespace that is selected then is in the tree.
\<close>

theorem page_survives_edits:
  assumes "showable l s" "labelled (rt_namespaces s)" "selection_present s"
    and "\<And>sel. rt_selectedNamespace s = Some sel \<Longrightarrow> plain_name (sel_namespace sel)"
    and "field_edit a" "rootReducer (Some s) a = Inr (s', a')"
  shows "showable l s' \<and> selection_present s' \<and> (\<exists>ds. render_page (Root_mapState env s') l = Inr ds)"
  using page_survives [OF assms] .

theorem page_survives_edits_witness:
  "\<exists>s' a'. rootReducer (Some shown_state) (ADD_BUCKET ''ns'' (JStr ''b'')) = Inr (s', a') \<and>
     (\<exists>ds. render_page (Root_mapState sample_env s') sample_locals = Inr ds)"
proof -
  let ?a = "ADD_BUCKET ''ns'' (JStr ''b'')" and ?ns = "rt_namespaces shown_state"
  have lab: "labelled ?ns" by (simp add: shown_state_def labelled_def no_history_def)
  have sel: "selection_present shown_state" by (simp add: selection_present_def shown_state_def)
  have plain: "plain_name (sel_namespace sel)" if "rt_selectedNamespace shown_state = Some sel" for sel
    using that by (auto simp: shown_state_def)
  have tree: "config_tree (items (cur ?ns))"
    using shown_state_showable by (simp add: showable_def tree_ok_def)
  then obtain r a' where "namespaces (cur ?ns) ?a = Inr (r, a')"
    using safe_edit_result [OF tree, of ?a] by (auto simp del: namespaces.simps)
  then obtain s' where "rootReducer (Some shown_state) ?a = Inr (s', a')"
    using root_edit [OF lab, of ?a] by auto
  then show ?thesis
    using page_survives_edits [OF shown_state_showable lab sel plain, of ?a s' a' sample_env] by auto
qed

end
