(* ===== verification/Editing_Sessions.thy ===== *)
theory Editing_Sessions
  imports Application Page_Survival
begin

text \<open>
  Editing in the running application. \<open>store_invariant\<close> states what it takes for a property of the
  store to hold in every reachable world: one action at a time. With it the history is well-formed
  whenever the page edits, so that the page that is shown after an edit can be rendered again.
\<close>

section \<open>Invariants of the store\<close>

lemma ui_item_app_action: "ui_item i \<Longrightarrow> app_action (first_action i)"
proof (cases i)
  case (Act a)
  then show "ui_item i \<Longrightarrow> app_action (first_action i)" by (cases a) auto
next
  case (Thk t)
  have "direct_action a \<Longrightarrow> app_action a" for a by (cases a) auto
  then show "ui_item i \<Longrightarrow> app_action (first_action i)"
    using Thk by (cases t) (auto simp: stats_call_def)
qed (auto simp: commit_call_def)

lemma task_app_action:
  assumes "task_ok (Await_api r)" "api_result r ans = Some x"
  shows "app_action x"
proof -
  have "\<exists>t err v. x = api_action t err v \<and> t \<in> {fst (types r), fst (snd (types r)), snd (snd (types r))}"
    using assms(2) by (cases ans; cases "types r") (auto split: if_splits sum.splits)
  then show ?thesis
    using assms(1)
    by (auto simp: commit_call_def stats_call_def configs_types_def stats_types_def api_action_def)
qed

locale store_invariant =
  fixes P :: "root_state \<Rightarrow> bool"
  assumes initial: "P initial_root"
    and dispatched: "P s \<Longrightarrow> app_action a \<Longrightarrow> P (fst (base_dispatch s a))"
begin

lemma next_async_keeps: "P (store w) \<Longrightarrow> app_action a \<Longrightarrow> P (store (next_async w a))"
  by (simp add: next_async_store dispatched)

lemma fetchCapabilities_keeps: "P (store w) \<Longrightarrow> P (store (fetchCapabilities_start w c))"
  by (simp add: fetchCapabilities_start_store dispatched)

lemma fetchConfigs_keeps: "P (store w) \<Longrightarrow> P (store (fetchConfigs_start w follow))"
  using dispatched [of "store w" "CONFIGS_REQUEST False JUndef"]
  by (simp add: fetchConfigs_start_eq base_dispatch_def root_configs_actions)

lemma failure_keeps: "P (store w) \<Longrightarrow> P (store (configs_failure w e))"
  by (simp add: configs_failure_def next_async_keeps)

lemma finish_keeps: "P (store w) \<Longrightarrow> P (store (fst (fetchConfigs_finish w ans)))"
  using dispatched [of "store w"]
  by (auto simp: fetchConfigs_finish_def failure_keeps split: answer.split sum.split prod.split)
     (metis app_action.simps fst_conv)

lemma event_keeps: "P (store w) \<Longrightarrow> ui_item i \<Longrightarrow> P (store (handle_event w i))"
  using ui_item_app_action by (simp add: handle_event_action dispatched)

lemma deliver_keeps:
  assumes "P (store w)" "task_ok t" "answers t ans"
  shows "P (store (deliver w t ans))"
proof (cases t)
  case (Await_configs follow)
  then show ?thesis
    using finish_keeps [OF assms(1), of ans] fetchCapabilities_keeps by (auto split: prod.split)
next
  case (Await_api r)
  then show ?thesis
    using assms api_result_total [of r ans] task_app_action [of r ans] by (auto simp: next_async_keeps)
next
  case Await_capabilities
  then show ?thesis using assms by (cases ans) (auto simp: next_async_keeps)
qed (use assms in auto)

lemma step_keeps:
  assumes "world_step w w'" "world_ok w" "P (store w)"
  shows "P (store w')"
  using assms
proof (cases rule: world_step.cases)
  case (trigger t)
  then show ?thesis using event_keeps [of w "Thk t"] assms(3) by simp
next
  case (confirmed d h b)
  then have "ui_item (item_of d)" using assms(2) by (cases d) (auto simp: world_ok_def confirm_ok_def)
  then show ?thesis using event_keeps confirmed assms(3) by simp
next
  case (answered xs t ys ans)
  then have "task_ok t" using assms(2) by (simp add: world_ok_def)
  then show ?thesis using deliver_keeps answered assms(3) by simp
next
  case (fetch_data follow)
  then show ?thesis using fetchConfigs_keeps assms(3) by simp
qed

lemma reachable_keeps: "reachable w \<Longrightarrow> P (store w)"
  by (induction rule: reachable.induct) (auto simp: initial_world_def initial intro: step_keeps reachable_ok)

end

text \<open>Every entry of the history has a change.\<close>

interpretation labels: store_invariant "\<lambda>s. labelled (rt_namespaces s)"
proof unfold_locales
  show "labelled (rt_namespaces initial_root)" by (simp add: initial_root_def INITIAL_HISTORY_def no_history_def labelled_def)
  fix s :: root_state and a :: action
  assume "labelled (rt_namespaces s)" "app_action a"
  then show "labelled (rt_namespaces (fst (base_dispatch s a)))"
    using ns_history.labelled_apply [of "rt_namespaces s" a] rootReducer_slices(1) [of s a]
    by (auto simp: base_dispatch_def apply_action_def split: sum.split)
qed

section \<open>The fields of the page\<close>

text \<open>
  A field that can be typed into is one of the seven fields, on a page that does not show the
  statistics.
\<close>

definition field_keys :: "string list" where
  "field_keys = ''max_dynamic_buckets'' # map fst bucket_fields"

definition field_ok :: "page \<Rightarrow> field_props \<Rightarrow> bool" where
  "field_ok pg p \<longleftrightarrow> fp_keyName p \<in> set field_keys \<and> \<not> st_show (rt_stats (p_state pg)) \<and>
     (case fp_target p of
        Of_namespace n \<Rightarrow> fp_keyName p = ''max_dynamic_buckets''
      | Of_bucket n b \<Rightarrow> True)"

definition types_field :: "page \<Rightarrow> handler \<Rightarrow> bool" where
  "types_field pg h = (case h of H_field_input p \<Rightarrow> field_ok pg p | _ \<Rightarrow> True)"

definition field_element :: "page \<Rightarrow> element \<Rightarrow> bool" where
  "field_element pg e =
     (case e of
        E_Field p \<Rightarrow> field_ok pg p
      | E_Bucket p \<Rightarrow> \<not> st_show (rt_stats (p_state pg))
      | E_Namespace n c \<Rightarrow> \<not> st_show (rt_stats (p_state pg))
      | E_AddField _ _ _ hc hs \<Rightarrow> types_field pg hc \<and> types_field pg hs
      | E_Config _ h \<Rightarrow> types_field pg h
      | E_NamespaceHeader _ _ h \<Rightarrow> types_field pg h
      | _ \<Rightarrow> True)"

lemma field_needs: "field_element pg e \<Longrightarrow> element_needs pg (types_field pg) (field_element pg) l e"
  by (cases e) (auto simp: field_element_def types_field_def field_ok_def bucket_field_def bucket_fields_def
      field_keys_def tile_onClick_def list_all_iff)

interpretation fields: page_invariant types_field field_element
  by unfold_locales (rule element_needs_enough [OF field_needs])

lemma offered_field:
  assumes "H_field_input p \<in> set (offered env a)"
  shows "field_ok (app_page env a) p"
proof -
  have "list_all (types_field pg) (page_handlers pg l)" for pg l
    by (rule fields.page_handlers_ok, rule node_ok_QuotaService) (simp_all add: field_element_def)
  then show ?thesis
    using assms by (fastforce simp: offered_def types_field_def list_all_iff split: if_splits)
qed

text \<open>Typing, with ordinary names, is an edit that the page survives.\<close>

definition plain_target :: "edit_target_val \<Rightarrow> bool" where
  "plain_target tg =
     (case tg of
        Of_namespace n \<Rightarrow> plain_name (to_str n)
      | Of_bucket n b \<Rightarrow> plain_name (to_str n) \<and> plain_name (to_str b))"

lemma field_keys_plain:
  "k \<in> set field_keys \<Longrightarrow> plain_name k \<and> k \<notin> {''name'', ''buckets'', ''default_bucket'', ''dynamic_bucket_template''}"
  by (auto simp: field_keys_def bucket_fields_def plain_name_def safe_key_def immutable_names_def
      object_prototype_def)

lemma typing_field_edit:
  assumes "field_ok pg p" "plain_target (fp_target p)"
    and "snd (field_handleChange (mounted_field p) s) = Some t"
  shows "field_edit (first_action (Thk t))"
proof -
  obtain v where t: "t = field_call (target_of (fp_target p) (fp_keyName p)) v" and v: "v = JNull \<or> (\<exists>n. v = JNum n)"
    using assms(3) by (auto simp: field_handleChange_def mounted_field_def field_constructor_def Let_def
        split: if_splits option.splits)
  then have "config_value v" "\<not> is_obj v" by auto
  then show ?thesis
    using assms(1,2) field_keys_plain [of "fp_keyName p"] t
    by (cases "fp_target p") (auto simp: field_ok_def plain_target_def updateNamespace_thunk_def
        updateBucket_thunk_def)
qed

section \<open>The page after an edit\<close>

lemma mounted_renders:
  assumes "app_reachable env a" "a_mounted a"
  shows "\<exists>ds. render_page (app_page env a) (a_locals a) = Inr ds"
proof -
  obtain b where "a = settle env b"
    using assms(1) by (cases rule: app_reachable.cases) (auto simp: app_start_def perform_def split: if_splits)
  then show ?thesis
    using assms(2) by (auto simp: settle_def mount_def Let_def app_page_def split: sum.splits)
qed

lemma showable_locals: "\<not> st_show (rt_stats s) \<Longrightarrow> showable l s \<longleftrightarrow> showable l' s"
  by (simp add: showable_def)

lemma settle_mounted:
  assumes "\<not> needs_refetch (app_state a)" "\<not> st_show (rt_stats (app_state a))" "showable l (app_state a)"
    and "\<And>sel. rt_selectedNamespace (app_state a) = Some sel \<Longrightarrow> plain_name (sel_namespace sel)"
    and "selection_present (app_state a)"
  shows "a_mounted (settle env a) \<and> showable (a_locals (settle env a)) (app_state (settle env a))"
proof -
  have w: "willReceiveProps env (a_world a) = a_world a" using assms(1) by (simp add: willReceiveProps_def)
  have show': "showable l' (app_state a)" for l' using showable_locals [OF assms(2)] assms(3) by blast
  then obtain ds where "render_page (Root_mapState env (app_state a)) (a_locals (settle env a)) = Inr ds"
    using renders_selection [OF show' assms(4)] assms(5) by blast
  moreover have "a_mounted (settle env a) =
      (case render_page (Root_mapState env (app_state a)) (a_locals (settle env a)) of Inl e \<Rightarrow> False | Inr ds \<Rightarrow> True)"
    using w by (simp add: settle_def Let_def app_page_def mount_def)
  ultimately show ?thesis using show' w by simp
qed

lemma edit_event_keeps_page:
  assumes "app_reachable env a" "perform env a e = Some a'" "\<not> st_show (rt_stats (app_state a))"
    and "\<And>n ans. e \<noteq> Answered n ans" "e \<noteq> Click H_refresh"
    and "\<And>i. sent env a e = Some i \<Longrightarrow> field_edit (first_action i)"
    and "showable (a_locals a) (app_state a)"
    and "\<And>sel. rt_selectedNamespace (app_state a) = Some sel \<Longrightarrow> plain_name (sel_namespace sel)"
  shows "a_mounted a' \<and> showable (a_locals a') (app_state a')"
proof -
  let ?s = "app_state a"
  obtain a1 where a1: "event env a e = Some a1" "a' = settle env a1" and "a_mounted a"
    using assms(2) by (auto simp: perform_def split: if_splits)
  then have sel: "selection_present ?s"
    using renders_selection [OF assms(7,8), of env] mounted_renders [OF assms(1)] by (auto simp: app_page_def)
  have lab: "labelled (rt_namespaces ?s)" using labels.reachable_keeps [OF app_reachable_world [OF assms(1)]] .
  have nr: "\<not> needs_refetch ?s" using settled_no_refetch [OF assms(1)] .
  have w: "a_world a1 = (case sent env a e of None \<Rightarrow> a_world a | Some i \<Rightarrow> handle_event (a_world a) i)"
    using event_world [OF a1(1)] assms(4,5) by (cases e) auto
  show ?thesis
  proof (cases "app_state a1 = ?s")
    case True
    then show ?thesis using settle_mounted [of a1 "a_locals a" env] a1(2) nr assms(3,7,8) sel by simp
  next
    case False
    then obtain i where i: "sent env a e = Some i" using w by (cases "sent env a e") auto
    have "app_state a1 = fst (base_dispatch ?s (first_action i))"
      using w i handle_event_action sent_ui_item [OF a1(1) i reachable_ok [OF app_reachable_world [OF assms(1)]]]
      by simp
    then obtain x where r: "rootReducer (Some ?s) (first_action i) = Inr (app_state a1, x)"
      using False by (auto simp: base_dispatch_def split: sum.splits prod.splits)
    have safe: "safe_edit (first_action i)" and fe: "field_edit (first_action i)"
      using assms(6) [OF i] field_edit_safe by auto
    note survives = page_survives [OF assms(7) lab sel assms(8) fe r]
    have "rt_stats (app_state a1) = rt_stats ?s" "rt_configs (app_state a1) = rt_configs ?s"
      using edit_other_slices [OF r safe_edit_edits [OF safe]] by auto
    then show ?thesis
      using settle_mounted [of a1 "a_locals a" env] a1(2) nr assms(3) survives
        edit_keeps_plain_selection [OF r safe assms(8)] by (simp add: needs_refetch_def)
  qed
qed

text \<open>
  C17: Typing never breaks the page. In every state that the application reaches and whose data has the
  shapes the components expect, whatever the user types into whichever field the page offers, the
  page is rendered again and the data keeps its shapes, for ordinary names: only the seven fields
  are offered, they send null or a safe integer, and the tree that results can be shown.
\<close>

theorem typing_keeps_page:
  assumes "app_reachable env a" "perform env a (Type_in (H_field_input p) s) = Some a'"
    and "plain_target (fp_target p)" "showable (a_locals a) (app_state a)"
    and "\<And>sel. rt_selectedNamespace (app_state a) = Some sel \<Longrightarrow> plain_name (sel_namespace sel)"
  shows "a_mounted a' \<and> showable (a_locals a') (app_state a')"
proof -
  have "H_field_input p \<in> set (offered env a)"
    using assms(2) by (auto simp: perform_def split: if_splits)
  then have ok: "field_ok (app_page env a) p" by (rule offered_field)
  then have "\<not> st_show (rt_stats (app_state a))" by (simp add: field_ok_def app_page_def Root_mapState_def)
  moreover have "field_edit (first_action i)" if "sent env a (Type_in (H_field_input p) s) = Some i" for i
    using that typing_field_edit [OF ok assms(3)] by auto
  ultimately show ?thesis using edit_event_keeps_page [OF assms(1,2)] assms(4,5) by blast
qed

definition edit_session :: "ui_event list" where
  "edit_session = [Answered 0 sample_answer, Click (H_select (JStr ''ns'') True)]"

text \<open>The last field of the page.\<close>

definition typed_field :: "environment \<Rightarrow> app \<Rightarrow> field_props" where
  "typed_field env a =
     last (concat (map (\<lambda>h. case h of H_field_input p \<Rightarrow> [p] | _ \<Rightarrow> []) (offered env a)))"

lemma edit_session_runs:
  "session sample_env edit_session (\<lambda>a. Type_in (H_field_input (typed_field sample_env a)) ''7'')
     (\<lambda>a a'. showable (a_locals a) (app_state a) \<and> plain_target (fp_target (typed_field sample_env a)) \<and>
            fp_keyName (typed_field sample_env a) = ''max_tokens_per_request'' \<and>
            (case rt_selectedNamespace (app_state a) of None \<Rightarrow> False | Some sel \<Rightarrow> plain_name (sel_namespace sel)))"
  by code_simp

theorem typing_keeps_page_witness:
  "\<exists>a p a'. fp_keyName p = ''max_tokens_per_request'' \<and>
     perform sample_env a (Type_in (H_field_input p) ''7'') = Some a' \<and> a_mounted a'"
proof -
  obtain a a' where a: "app_reachable sample_env a"
    "perform sample_env a (Type_in (H_field_input (typed_field sample_env a)) ''7'') = Some a'"
    and c: "showable (a_locals a) (app_state a) \<and> plain_target (fp_target (typed_field sample_env a)) \<and>
      fp_keyName (typed_field sample_env a) = ''max_tokens_per_request'' \<and>
      (case rt_selectedNamespace (app_state a) of None \<Rightarrow> False | Some sel \<Rightarrow> plain_name (sel_namespace sel))"
    using edit_session_runs by (rule sessionE)
  have "a_mounted a'"
    using typing_keeps_page [OF a] c by (auto split: option.splits)
  then show ?thesis using a(2) c by blast
qed

end
