(* ===== verification/Spec2Isabelle.thy ===== *)
theory Spec2Isabelle
  imports Capabilities_Example Dev_Routes Prop_Types Editing_Sessions
begin

text \<open>
  The admin UI of QuotaService (\<^verbatim>\<open>src/admin/public\<close>), a React and Redux application in which an
  administrator loads the quota configuration of a server, edits namespaces and buckets, undoes and
  redoes edits, compares versions, watches statistics, and saves the result.

  \<^bold>\<open>Parts of the program.\<close>
  \<^item> Action creators (\<^verbatim>\<open>src/actions\<close>) build plain actions, thunks and API calls.
  \<^item> The store (\<^verbatim>\<open>src/store.js\<close>, \<^verbatim>\<open>src/reducers/root.jsx\<close>) runs an action through the thunk and
    API middlewares and then through seven reducers; the \<open>namespaces\<close> reducer is wrapped in the
    undo history (\<^verbatim>\<open>src/reducers/history.jsx\<close>).
  \<^item> The trees that are edited are immutable values of the package seamless-immutable.
  \<^item> The page (\<^verbatim>\<open>src/containers\<close>, \<^verbatim>\<open>src/components\<close>) is a function of the state of the store and of
    the local states of its components; its handlers dispatch actions.
  \<^item> Asynchronous functions (loading the configurations, saving, statistics, capabilities) wait for
    answers of the server or of a hook outside the page.

  \<^bold>\<open>Theories and what they model.\<close>
  \<^item> \<open>JS_Prelude\<close>: JavaScript values, exceptions as the left side of a sum (\<open>result\<close>), truth,
    string conversion, property reads with the names inherited from \<open>Object.prototype\<close>,
    \<open>Object.assign\<close> and \<open>Object.keys\<close> with its order; the collections \<open>js_simps\<close> and \<open>im_simps\<close>.
  \<^item> \<open>Seamless_Immutable\<close>: \<open>from\<close>, \<open>set\<close>, \<open>setIn\<close>, \<open>updateIn\<close>, \<open>without\<close> as the shipped bundle
    (\<^verbatim>\<open>js/bundle.js\<close>) has them. The locale \<open>path_store\<close> states the laws of a store that is read and
    written by paths; it is interpreted on these operations.
  \<^item> \<open>JSON_Text\<close>: \<open>JSON.stringify\<close>. \<open>JSON_Parse\<close>: the parser behind \<open>response.json()\<close>. \<open>Actions\<close>: every
    action creator.
  \<^item> \<open>History_Reducer\<close>: \<open>undo\<close>, \<open>redo\<close>, merging and \<open>reduce\<close>, with the edit log they implement; the
    locale \<open>undoable\<close> states what the history needs of the reducer it wraps.
  \<^item> \<open>Namespaces_Reducer\<close>: the edits of the tree and the selection, and the interpretation of
    \<open>undoable\<close> on this reducer. \<open>Slice_Reducers\<close>: configurations, version, statistics,
    confirmation, capabilities.
  \<^item> \<open>Store\<close>: \<open>combineReducers\<close>, dispatch, the middlewares, and the asynchronous functions split at
    each point where they wait; a \<open>world\<close> is the state of the store, the tasks that wait and the
    exceptions nobody caught. \<open>World_Steps\<close>: events and answers as a step relation, the reachable
    worlds and their invariants.
  \<^item> \<open>Input_Field\<close>: \<open>Field.jsx\<close> with \<open>parseInt\<close>. \<open>Dates\<close>: \<open>FormattedDate.js\<close> with the calendar of
    \<open>Date\<close>. \<open>Components\<close>: the other presentational components. \<open>Containers\<close>: \<open>Root.jsx\<close>,
    \<open>QuotaService.jsx\<close> and all containers, the expansion of the page to DOM elements, the handlers
    it offers and what each dispatches.
  \<^item> \<open>Capabilities_Example\<close>: \<^verbatim>\<open>examples/capabilities.js\<close> and \<open>index.jsx\<close>; the locale
    \<open>capability_hook\<close> (in \<open>Page_Editing\<close>) states what the tiles of the page rely on, and the example
    is an interpretation of it. \<open>Dev_Server\<close>, \<open>Dev_Routes\<close>: the made-up statistics and the routes of
    \<^verbatim>\<open>server.js\<close>; how express matches a path is an argument.
  \<^item> \<open>Page_Invariants\<close>: the locale \<open>page_invariant\<close>, which lifts a property of the elements and handlers
    of one component to the whole page. Its interpretations: \<open>dialog\<close> (a handler that confirms belongs
    to the question in the store), \<open>permission\<close> (no edits without permission), \<open>typing\<close> in
    \<open>Prop_Types\<close> (the declarations \<open>propTypes\<close> of all components), \<open>stats_flag\<close> in \<open>Application\<close> and
    \<open>fields\<close> in \<open>Editing_Sessions\<close> (which fields can be typed into).
  \<^item> \<open>Application\<close>: the running application as a state machine. A state \<open>app\<close> has the world, the local
    states of the mounted components, the timers whose view is gone and the tiles that wait for an
    answer; \<open>perform\<close> is one event (a click or a text on an element that the page offers, a timer, an
    answer of the hook or of the server) followed by rendering (\<open>settle\<close>).

  \<^bold>\<open>What is shown.\<close>
  \<^item> \<open>Edit_Properties\<close>: each edit writes exactly its target; the history refines an edit log, so
    undoing everything restores the loaded configuration and one undo takes back one edit; states of
    the history are well-formed; merging joins only edits of one field, for names without dots.
  \<^item> \<open>Store_Properties\<close>: every answer to the load, the save and the statistics ends in a known state,
    the loading indicator always has a request that ends it, destructive actions only ask.
  \<^item> \<open>JSON_Parse\<close>, \<open>Save_Roundtrip\<close>: what \<open>JSON.stringify\<close> writes is read back; the dialog shows what is
    sent, and a saved tree is loaded back as it was.
  \<^item> \<open>Application\<close>: runs of the application are runs of the store; the page is never stuck; a save is
    sent only by the click that confirms it, for the tree of that moment; a page without permission
    leaves the tree alone. The witnesses are sessions that are evaluated from the start of the
    application.
  \<^item> \<open>Page_Survival\<close>, \<open>Editing_Sessions\<close>: an edit never breaks the page, and neither does typing in the
    running application; the locale \<open>store_invariant\<close> lifts a property of single actions to all
    reachable worlds and is interpreted for the labels of the history.
  \<^item> \<open>Prop_Types\<close>: every element of a well-typed page passes the declarations of its component.
  \<^item> \<open>Page_Properties\<close>, \<open>Page_Rendering\<close>, \<open>Page_Editing\<close>: the page renders exactly when the selected
    namespace is in the tree; edits keep it there; without permission no edit is offered; what is
    typed into a field is what the tree holds afterwards; buttons are offered exactly when they do
    something; a save reloads once.
  \<^item> \<open>Input_Field\<close>, \<open>Dates\<close>, \<open>Capabilities_Example\<close>, \<open>Dev_Server\<close>, \<open>Dev_Routes\<close>: bounds and exactness
    of numbers and dates, the permissions the hook reports, the shape of the made-up statistics and
    which requests of the page the server for development answers.
  \<^item> Some theorems state behaviour that looks unintended: an undo after adding a namespace leaves a
    selection that cannot be rendered, \<open>toggleStats\<close> throws, names with dots merge, a name inherited
    from \<open>Object.prototype\<close> empties a namespace, late statistics are shown for another namespace,
    the statistics view offers a removal without permission, a stored zero is shown as empty, a
    search timer outlives its view, the server for development has no route for a search.

  \<^bold>\<open>Bounds and fuel.\<close> \<open>Immutable.from\<close> stops at a depth of 64, as the package does; this is part of
  its behaviour. The expansion of the page gets fuel 4, the deepest nesting of components (a field
  in a bucket in a namespace in the selected namespace); that it never runs out is part of the
  theorem that the page renders. The JSON parser gets fuel \<open>2 * length + 2\<close>: each step of it reads a
  character or enters one level, and it is proved never to run out, on any text. All other functions
  are total without fuel. Numbers are unbounded
  integers: the UI itself only writes integers between the safe limits.

  \<^bold>\<open>Not modelled.\<close> The server in Go and its API (its answers are arguments of the model); the
  notification of subscribers and React's reconciliation and scheduling (a page is rendered from a
  state, once per event, and a page that cannot be rendered ends the run); the logger of the
  development build; style sheets, the webpack and jest configurations and the start of the server
  for development, which have no behaviour of their own. Numbers with
  a fraction and the members of arrays other than those named are outside the values; where the
  code could reach such a value the model returns the exception \<open>OutsideModel\<close>.
\<close>

end
